theory Spec2Isabelle
  imports Main "HOL-Library.Monad_Syntax"
begin

section \<open>Strings of the validator\<close>

text \<open>
  A document is the sequence of its UTF-16 code units, as JavaScript's \<open>length\<close>,
  \<open>startsWith\<close> and the regular expressions (none has the \<open>u\<close> flag) see it.
  The model covers the code units below 256, one \<^typ>\<open>char\<close> each. Every character
  class of the source is a set of ASCII characters or the complement of one; the only
  white space below 256 that \<open>trim\<close> removes beside the ASCII ones is U+00A0.
\<close>

definition code_unit :: "char \<Rightarrow> nat" where
  "code_unit c = of_char c"

definition is_alpha :: "char \<Rightarrow> bool" where
  "is_alpha c = ((65 \<le> code_unit c \<and> code_unit c \<le> 90) \<or> (97 \<le> code_unit c \<and> code_unit c \<le> 122))"

definition is_digit :: "char \<Rightarrow> bool" where
  "is_digit c = (48 \<le> code_unit c \<and> code_unit c \<le> 57)"

text \<open>The class \<^verbatim>\<open>[a-zA-Z:-]\<close> of the three tag expressions.\<close>

definition is_name_char :: "char \<Rightarrow> bool" where
  "is_name_char c = (is_alpha c \<or> c = CHR '':'' \<or> c = CHR ''-'')"

text \<open>The class \<^verbatim>\<open>[\w-]\<close> of the attribute expression.\<close>

definition is_attr_char :: "char \<Rightarrow> bool" where
  "is_attr_char c = (is_alpha c \<or> is_digit c \<or> c = CHR ''_'' \<or> c = CHR ''-'')"

text \<open>White space and line terminators of ECMAScript below 256: TAB, LF, VT, FF, CR, SP, NBSP.\<close>

definition is_space :: "char \<Rightarrow> bool" where
  "is_space c = (code_unit c \<in> {9, 10, 11, 12, 13, 32, 160})"

definition trim :: "string \<Rightarrow> string" where
  "trim s = rev (dropWhile is_space (rev (dropWhile is_space s)))"

definition startsWith :: "string \<Rightarrow> string \<Rightarrow> bool" where
  "startsWith s p = (take (length p) s = p)"

definition endsWith :: "string \<Rightarrow> string \<Rightarrow> bool" where
  "endsWith s p = (length p \<le> length s \<and> drop (length s - length p) s = p)"

fun includes_str :: "string \<Rightarrow> string \<Rightarrow> bool" where
  "includes_str [] p = (p = [])"
| "includes_str (c # cs) p = (startsWith (c # cs) p \<or> includes_str cs p)"

fun join :: "string \<Rightarrow> string list \<Rightarrow> string" where
  "join sep [] = []"
| "join sep [x] = x"
| "join sep (x # y # ys) = x @ sep @ join sep (y # ys)"

definition not_gt :: "char \<Rightarrow> bool" where
  "not_gt c = (c \<noteq> CHR ''>'')"

definition not_quote :: "char \<Rightarrow> bool" where
  "not_quote c = (c \<noteq> CHR 0x22)"

section \<open>Expressions of the shape \<^verbatim>\<open>lit[^>]*>\<close>\<close>

text \<open>
  \<^verbatim>\<open>/<speak[^>]*>/g\<close>, \<^verbatim>\<open>/<[^>]*>/g\<close> and \<^verbatim>\<open>/<break[^>]*>/\<close> are a literal,
  then \<^verbatim>\<open>[^>]*\<close>, then \<^verbatim>\<open>>\<close>. Anchored at the head of \<open>s\<close> such an expression
  matches iff \<open>s\<close> starts with the literal and a \<^verbatim>\<open>>\<close> follows somewhere; the greedy star
  takes everything before the first \<^verbatim>\<open>>\<close>, and giving characters back cannot help,
  since none of them is a \<^verbatim>\<open>>\<close>. The result is what follows the match.
\<close>

definition lit_tag_at :: "string \<Rightarrow> string \<Rightarrow> string option" where
  "lit_tag_at lit s =
     (if startsWith s lit \<and> CHR ''>'' \<in> set (drop (length lit) s)
      then Some (tl (dropWhile not_gt (drop (length lit) s)))
      else None)"

text \<open>\<^verbatim>\<open>(s.match(/lit[^>]*>/g) || []).length\<close>: the matches from left to right, each search
  starting where the last match ended.\<close>

function count_matches :: "string \<Rightarrow> string \<Rightarrow> nat" where
  "count_matches lit [] = 0"
| "count_matches lit (c # cs) =
     (if startsWith (c # cs) lit \<and> CHR ''>'' \<in> set (drop (length lit) (c # cs))
      then Suc (count_matches lit (tl (dropWhile not_gt (drop (length lit) (c # cs)))))
      else count_matches lit cs)"
  by pat_completeness auto
termination
proof (relation "measure (\<lambda>(lit, s). length s)")
  fix lit :: string and c :: char and cs :: string
  let ?d = "dropWhile not_gt (drop (length lit) (c # cs))"
  assume "startsWith (c # cs) lit \<and> CHR ''>'' \<in> set (drop (length lit) (c # cs))"
  then have "?d \<noteq> []" by (auto simp: dropWhile_eq_Nil_conv not_gt_def)
  moreover have "length ?d \<le> length (c # cs)"
    by (rule order_trans [OF length_dropWhile_le]) simp
  ultimately have "length (tl ?d) < length (c # cs)"
    by (cases ?d) auto
  then show "((lit, tl ?d), (lit, c # cs)) \<in> measure (\<lambda>(lit, s). length s)" by simp
qed auto

text \<open>\<^verbatim>\<open>s.replace(/lit[^>]*>/g, '')\<close>.\<close>

function remove_matches :: "string \<Rightarrow> string \<Rightarrow> string" where
  "remove_matches lit [] = []"
| "remove_matches lit (c # cs) =
     (if startsWith (c # cs) lit \<and> CHR ''>'' \<in> set (drop (length lit) (c # cs))
      then remove_matches lit (tl (dropWhile not_gt (drop (length lit) (c # cs))))
      else c # remove_matches lit cs)"
  by pat_completeness auto
termination
proof (relation "measure (\<lambda>(lit, s). length s)")
  fix lit :: string and c :: char and cs :: string
  let ?d = "dropWhile not_gt (drop (length lit) (c # cs))"
  assume "startsWith (c # cs) lit \<and> CHR ''>'' \<in> set (drop (length lit) (c # cs))"
  then have "?d \<noteq> []" by (auto simp: dropWhile_eq_Nil_conv not_gt_def)
  moreover have "length ?d \<le> length (c # cs)"
    by (rule order_trans [OF length_dropWhile_le]) simp
  ultimately have "length (tl ?d) < length (c # cs)"
    by (cases ?d) auto
  then show "((lit, tl ?d), (lit, c # cs)) \<in> measure (\<lambda>(lit, s). length s)" by simp
qed auto

text \<open>\<^verbatim>\<open>s.split(/lit[^>]*>/)\<close>: the pieces between the matches; \<open>cur\<close> is the piece being
  read. The expression never matches the empty string, so an empty document gives one
  empty piece.\<close>

function split_matches :: "string \<Rightarrow> string \<Rightarrow> string \<Rightarrow> string list" where
  "split_matches lit cur [] = [cur]"
| "split_matches lit cur (c # cs) =
     (if startsWith (c # cs) lit \<and> CHR ''>'' \<in> set (drop (length lit) (c # cs))
      then cur # split_matches lit [] (tl (dropWhile not_gt (drop (length lit) (c # cs))))
      else split_matches lit (cur @ [c]) cs)"
  by pat_completeness auto
termination
proof (relation "measure (\<lambda>(lit, cur, s). length s)")
  fix lit :: string and cur :: string and c :: char and cs :: string
  let ?d = "dropWhile not_gt (drop (length lit) (c # cs))"
  assume "startsWith (c # cs) lit \<and> CHR ''>'' \<in> set (drop (length lit) (c # cs))"
  then have "?d \<noteq> []" by (auto simp: dropWhile_eq_Nil_conv not_gt_def)
  moreover have "length ?d \<le> length (c # cs)"
    by (rule order_trans [OF length_dropWhile_le]) simp
  ultimately have "length (tl ?d) < length (c # cs)"
    by (cases ?d) auto
  then show "((lit, [], tl ?d), (lit, cur, c # cs)) \<in> measure (\<lambda>(lit, cur, s). length s)"
    by simp
qed auto

text \<open>\<^verbatim>\<open>(s.match(/<\/speak>/g) || []).length\<close>: the occurrences of a literal, each search
  starting after the last occurrence. The literal of the only call is not empty.\<close>

function count_literal :: "string \<Rightarrow> string \<Rightarrow> nat" where
  "count_literal lit [] = 0"
| "count_literal lit (c # cs) =
     (if lit \<noteq> [] \<and> startsWith (c # cs) lit
      then Suc (count_literal lit (drop (length lit) (c # cs)))
      else count_literal lit cs)"
  by pat_completeness auto
termination
  by (relation "measure (\<lambda>(lit, s). length s)") (auto simp: neq_Nil_conv)

section \<open>The tag expressions\<close>

text \<open>
  \<^verbatim>\<open>/<\/?([a-zA-Z:-]+)[^>]*>/g\<close>, anchored at the head of \<open>s\<close>. The optional slash is
  taken when it is there (without it the name would have to start at the slash, which is
  no name character); the name is the longest run of name characters (a shorter one only
  moves characters into \<^verbatim>\<open>[^>]*\<close>, which ends at the same place); then everything
  up to the first \<^verbatim>\<open>>\<close>. The result is \<open>match[0]\<close>, \<open>match[1]\<close> and the text after the
  match, where the next \<open>exec\<close> starts (\<open>lastIndex\<close>).
\<close>

definition xml_tag_at :: "string \<Rightarrow> (string \<times> string \<times> string) option" where
  "xml_tag_at s =
     (case s of
        [] \<Rightarrow> None
      | c # t \<Rightarrow>
          if c \<noteq> CHR ''<'' then None
          else
            let slash = (if startsWith t ''/'' then ''/'' else []);
                u = drop (length slash) t;
                tagName = takeWhile is_name_char u;
                v = dropWhile is_name_char u
            in if tagName = [] \<or> CHR ''>'' \<notin> set v then None
               else Some (''<'' @ slash @ tagName @ takeWhile not_gt v @ ''>'',
                          tagName, tl (dropWhile not_gt v)))"

text \<open>\<open>tagRegex.exec\<close> on the text not yet read: the first position where the expression
  matches, or \<open>null\<close>.\<close>

fun xml_exec :: "string \<Rightarrow> (string \<times> string \<times> string) option" where
  "xml_exec [] = None"
| "xml_exec (c # cs) =
     (case xml_tag_at (c # cs) of Some m \<Rightarrow> Some m | None \<Rightarrow> xml_exec cs)"

text \<open>
  \<^verbatim>\<open>/<([a-zA-Z:-]+)([^>]*)>/g\<close> of the schema pass: no optional slash, and the text
  between the name and the \<^verbatim>\<open>>\<close> is the second group. The result is \<open>match[0]\<close>,
  \<open>match[1]\<close>, \<open>match[2]\<close> and the text after the match.
\<close>

definition ssml_tag_at :: "string \<Rightarrow> (string \<times> string \<times> string \<times> string) option" where
  "ssml_tag_at s =
     (case s of
        [] \<Rightarrow> None
      | c # t \<Rightarrow>
          if c \<noteq> CHR ''<'' then None
          else
            let tagName = takeWhile is_name_char t;
                v = dropWhile is_name_char t
            in if tagName = [] \<or> CHR ''>'' \<notin> set v then None
               else Some (''<'' @ tagName @ takeWhile not_gt v @ ''>'',
                          tagName, takeWhile not_gt v, tl (dropWhile not_gt v)))"

fun ssml_exec :: "string \<Rightarrow> (string \<times> string \<times> string \<times> string) option" where
  "ssml_exec [] = None"
| "ssml_exec (c # cs) =
     (case ssml_tag_at (c # cs) of Some m \<Rightarrow> Some m | None \<Rightarrow> ssml_exec cs)"

text \<open>
  \<^verbatim>\<open>/([\w-]+)="([^"]*)"/g\<close>, anchored: the longest run of \<^verbatim>\<open>[\w-]\<close> (after a shorter
  one the next character is no \<^verbatim>\<open>=\<close>), then \<^verbatim>\<open>="\<close>, then everything up to the next
  double quote, which must exist. The result is \<open>match[1]\<close>, \<open>match[2]\<close> and the text after
  the match.
\<close>

definition attr_at :: "string \<Rightarrow> (string \<times> string \<times> string) option" where
  "attr_at s =
     (let attrName = takeWhile is_attr_char s;
          v = dropWhile is_attr_char s
      in if attrName = [] \<or> \<not> startsWith v [CHR ''='', CHR 0x22]
            \<or> CHR 0x22 \<notin> set (drop 2 v) then None
         else Some (attrName, takeWhile not_quote (drop 2 v),
                    tl (dropWhile not_quote (drop 2 v))))"

fun attr_exec :: "string \<Rightarrow> (string \<times> string \<times> string) option" where
  "attr_exec [] = None"
| "attr_exec (c # cs) =
     (case attr_at (c # cs) of Some m \<Rightarrow> Some m | None \<Rightarrow> attr_exec cs)"

section \<open>The schema of the constructor\<close>

text \<open>
  The value patterns are anchored at both ends (\<^verbatim>\<open>^...$\<close>, no \<open>m\<close> flag), so
  \<open>test\<close> asks whether the whole value belongs to the language of the pattern between
  the anchors. The patterns are kept as data and decided by derivatives.
\<close>

datatype pattern =
    Never
  | Empty
  | Lit char
  | Digit
  | OneOf string
  | Seq pattern pattern
  | Alt pattern pattern
  | Plus pattern
  | Opt pattern

fun nullable :: "pattern \<Rightarrow> bool" where
  "nullable Never = False"
| "nullable Empty = True"
| "nullable (Lit c) = False"
| "nullable Digit = False"
| "nullable (OneOf cs) = False"
| "nullable (Seq p q) = (nullable p \<and> nullable q)"
| "nullable (Alt p q) = (nullable p \<or> nullable q)"
| "nullable (Plus p) = nullable p"
| "nullable (Opt p) = True"

fun deriv :: "char \<Rightarrow> pattern \<Rightarrow> pattern" where
  "deriv c Never = Never"
| "deriv c Empty = Never"
| "deriv c (Lit d) = (if c = d then Empty else Never)"
| "deriv c Digit = (if is_digit c then Empty else Never)"
| "deriv c (OneOf cs) = (if c \<in> set cs then Empty else Never)"
| "deriv c (Seq p q) =
     (if nullable p then Alt (Seq (deriv c p) q) (deriv c q) else Seq (deriv c p) q)"
| "deriv c (Alt p q) = Alt (deriv c p) (deriv c q)"
| "deriv c (Plus p) = Seq (deriv c p) (Opt (Plus p))"
| "deriv c (Opt p) = deriv c p"

fun test :: "pattern \<Rightarrow> string \<Rightarrow> bool" where
  "test p [] = nullable p"
| "test p (c # cs) = test (deriv c p) cs"

fun literal :: "string \<Rightarrow> pattern" where
  "literal [] = Empty"
| "literal (c # cs) = Seq (Lit c) (literal cs)"

text \<open>\<^verbatim>\<open>\d+(\.\d+)?\<close>, the number every pattern of the schema contains.\<close>

definition number :: pattern where
  "number = Seq (Plus Digit) (Opt (Seq (Lit CHR ''.'') (Plus Digit)))"

text \<open>\<^verbatim>\<open>[\+\-]\<close>\<close>

definition sign :: pattern where
  "sign = OneOf ''+-''"

text \<open>\<^verbatim>\<open>/^\d+(\.\d+)?(ms|s)$/\<close>\<close>

definition time_pattern :: pattern where
  "time_pattern = Seq number (Alt (literal ''ms'') (literal ''s''))"

text \<open>\<^verbatim>\<open>/^\d+(\.\d+)?%$/\<close>\<close>

definition percent_pattern :: pattern where
  "percent_pattern = Seq number (literal ''%'')"

text \<open>\<^verbatim>\<open>/^[\+\-]\d+(\.\d+)?%$/\<close>, \<^verbatim>\<open>/^[\+\-]\d+(\.\d+)?Hz$/\<close>,
  \<^verbatim>\<open>/^[\+\-]\d+(\.\d+)?dB$/\<close>\<close>

definition signed_pattern :: "string \<Rightarrow> pattern" where
  "signed_pattern unit = Seq sign (Seq number (literal unit))"

text \<open>An element of an array of legal values is a string or a regular expression.\<close>

datatype alternative = Str string | Rx pattern

text \<open>
  What \<open>this.validAttributeValues[tagName][attrName]\<close> can be when it is truthy: an array,
  a single regular expression, or, because the tables are plain objects, a member
  inherited from \<open>Object.prototype\<close> (a function or an object: no array and no regular
  expression).
\<close>

datatype valid_values = ValueList "alternative list" | Pattern pattern | Inherited

definition supportedTags :: "string list" where
  "supportedTags =
     [''speak'', ''break'', ''emphasis'', ''lang'', ''mark'', ''p'', ''s'', ''phoneme'',
      ''prosody'', ''say-as'', ''sub'', ''voice'', ''audio'', ''lexicon'',
      ''amazon:breath'', ''amazon:auto-breaths'', ''amazon:effect'']"

definition requiredAttributes :: "(string \<times> string list) list" where
  "requiredAttributes =
     [(''phoneme'', [''alphabet'', ''ph'']),
      (''say-as'', [''interpret-as'']),
      (''sub'', [''alias'']),
      (''voice'', [''name'']),
      (''audio'', [''src'']),
      (''lexicon'', [''name''])]"

definition validAttributeValues :: "(string \<times> (string \<times> valid_values) list) list" where
  "validAttributeValues =
     [(''break'',
        [(''strength'', ValueList (map Str
            [''none'', ''x-weak'', ''weak'', ''medium'', ''strong'', ''x-strong''])),
         (''time'', Pattern time_pattern)]),
      (''emphasis'',
        [(''level'', ValueList (map Str [''strong'', ''moderate'', ''reduced'']))]),
      (''prosody'',
        [(''rate'', ValueList (map Str [''x-slow'', ''slow'', ''medium'', ''fast'', ''x-fast'']
            @ [Rx percent_pattern, Rx (signed_pattern ''%'')])),
         (''pitch'', ValueList (map Str [''x-low'', ''low'', ''medium'', ''high'', ''x-high'']
            @ [Rx (signed_pattern ''Hz''), Rx (signed_pattern ''%'')])),
         (''volume'', ValueList (map Str
            [''silent'', ''x-soft'', ''soft'', ''medium'', ''loud'', ''x-loud'']
            @ [Rx (signed_pattern ''dB'')]))]),
      (''say-as'',
        [(''interpret-as'', ValueList (map Str
            [''characters'', ''spell-out'', ''cardinal'', ''number'', ''ordinal'', ''digits'',
             ''fraction'', ''unit'', ''date'', ''time'', ''telephone'', ''address'',
             ''interjection'', ''expletive'']))]),
      (''phoneme'',
        [(''alphabet'', ValueList (map Str [''ipa'', ''x-sampa'']))]),
      (''amazon:breath'',
        [(''duration'', ValueList (map Str
            [''default'', ''x-short'', ''short'', ''medium'', ''long'', ''x-long'']))]),
      (''amazon:auto-breaths'',
        [(''volume'', ValueList (map Str
            [''default'', ''x-soft'', ''soft'', ''medium'', ''loud'', ''x-loud''])),
         (''frequency'', ValueList (map Str
            [''default'', ''x-low'', ''low'', ''medium'', ''high'', ''x-high''])),
         (''duration'', ValueList (map Str
            [''default'', ''x-short'', ''short'', ''medium'', ''long'', ''x-long'']))]),
      (''amazon:effect'',
        [(''name'', ValueList (map Str [''whispered'']))])]"

text \<open>
  The property names of \<open>Object.prototype\<close>. Each consists of \<^verbatim>\<open>[\w-]\<close> only, so the
  attribute expression can produce it, and the lookup of such a name in a table of the
  schema finds the inherited member.
\<close>

definition object_prototype_names :: "string list" where
  "object_prototype_names =
     [''constructor'', ''hasOwnProperty'', ''isPrototypeOf'', ''propertyIsEnumerable'',
      ''toLocaleString'', ''toString'', ''valueOf'', ''__proto__'',
      ''__defineGetter__'', ''__defineSetter__'', ''__lookupGetter__'', ''__lookupSetter__'']"

text \<open>\<open>table[attrName]\<close> on one of the inner tables: \<open>None\<close> is \<open>undefined\<close>.\<close>

definition lookup_values :: "(string \<times> valid_values) list \<Rightarrow> string \<Rightarrow> valid_values option" where
  "lookup_values table attrName =
     (case map_of table attrName of
        Some v \<Rightarrow> Some v
      | None \<Rightarrow> if attrName \<in> set object_prototype_names then Some Inherited else None)"

section \<open>The report\<close>

text \<open>
  \<open>estimatedCost\<close> is a pair of floating-point products of \<open>characterCount\<close>; it takes
  no part in any check and is left out of the record.
\<close>

record info =
  characterCount :: nat
  tagCount :: nat

record report =
  valid :: bool
  errors :: "string list"
  warnings :: "string list"
  info :: info

definition push_error :: "string \<Rightarrow> report \<Rightarrow> report" where
  "push_error msg result = result\<lparr>errors := errors result @ [msg]\<rparr>"

definition push_warning :: "string \<Rightarrow> report \<Rightarrow> report" where
  "push_warning msg result = result\<lparr>warnings := warnings result @ [msg]\<rparr>"

definition initial_report :: report where
  "initial_report =
     \<lparr>valid = True, errors = [], warnings = [],
      info = \<lparr>characterCount = 0, tagCount = 0\<rparr>\<rparr>"

section \<open>The passes\<close>

text \<open>
  The passes mutate the report they are given; here each returns the updated report.
  A \<open>while\<close> loop over \<open>exec\<close> carries the text not yet read and is a partial function
  with values in \<open>option\<close>: \<open>None\<close> stands for a loop that does not end.
\<close>

subsection \<open>\<open>_validateBasicStructure\<close>\<close>

definition validateBasicStructure :: "string \<Rightarrow> report \<Rightarrow> report" where
  "validateBasicStructure ssml result =
     (let trimmed = trim ssml;
          r1 = (if \<not> startsWith trimmed ''<speak''
                then push_error ''SSML must start with <speak> tag'' result else result);
          r2 = (if \<not> endsWith trimmed ''</speak>''
                then push_error ''SSML must end with </speak> tag'' r1 else r1);
          speakOpenCount = count_matches ''<speak'' ssml;
          speakCloseCount = count_literal ''</speak>'' ssml;
          r3 = (if speakOpenCount \<noteq> speakCloseCount
                then push_error ''Unbalanced <speak> tags'' r2 else r2)
      in if speakOpenCount > 1
         then push_error ''Multiple <speak> tags found - only one is allowed'' r3 else r3)"

subsection \<open>\<open>_validateXMLStructure\<close>\<close>

text \<open>The body of the loop for one match. The array \<open>stack\<close> is a list whose last element
  is the top: \<open>push\<close> appends, \<open>pop\<close> removes the last element.\<close>

definition xml_token :: "string \<Rightarrow> string \<Rightarrow> string list \<times> report \<Rightarrow> string list \<times> report" where
  "xml_token fullTag tagName st =
     (case st of (stack, result) \<Rightarrow>
        if includes_str fullTag ''/>'' \<and> \<not> startsWith fullTag ''</'' then (stack, result)
        else if startsWith fullTag ''</'' then
          (if stack = [] then
             (stack, push_error (''Unexpected closing tag: '' @ fullTag) result)
           else
             (butlast stack,
              if last stack \<noteq> tagName
              then push_error (''Mismatched tags: expected </'' @ last stack @ ''>, found ''
                               @ fullTag) result
              else result))
        else (stack @ [tagName], result))"

partial_function (option) xml_loop ::
  "string \<Rightarrow> string list \<times> report \<Rightarrow> (string list \<times> report) option" where
  "xml_loop s st =
     (case xml_exec s of
        None \<Rightarrow> Some st
      | Some (fullTag, tagName, rest) \<Rightarrow> xml_loop rest (xml_token fullTag tagName st))"

declare xml_loop.simps [code]

definition unclosed_message :: "string list \<Rightarrow> string" where
  "unclosed_message stack =
     ''Unclosed tags: '' @ join '', '' (map (\<lambda>tag. ''<'' @ tag @ ''>'') stack)"

definition validateXMLStructure :: "string \<Rightarrow> report \<Rightarrow> report option" where
  "validateXMLStructure ssml result =
     do {
       (stack, r) \<leftarrow> xml_loop ssml ([], result);
       Some (if length stack > 0 then push_error (unclosed_message stack) r else r)
     }"

subsection \<open>\<open>_validateAttributes\<close>\<close>

text \<open>The loop over an array of legal values: a string must equal the value, a regular
  expression must match it.\<close>

fun accepts :: "alternative \<Rightarrow> string \<Rightarrow> bool" where
  "accepts (Str v) attrValue = (v = attrValue)"
| "accepts (Rx p) attrValue = test p attrValue"

fun is_valid :: "valid_values \<Rightarrow> string \<Rightarrow> bool" where
  "is_valid (ValueList vs) attrValue = list_ex (\<lambda>v. accepts v attrValue) vs"
| "is_valid (Pattern p) attrValue = test p attrValue"
| "is_valid Inherited attrValue = False"

definition invalid_value_message :: "string \<Rightarrow> string \<Rightarrow> string \<Rightarrow> string" where
  "invalid_value_message attrValue attrName tagName =
     ''Invalid value '' @ [CHR 0x27] @ attrValue @ [CHR 0x27] @ '' for attribute ''
       @ [CHR 0x27] @ attrName @ [CHR 0x27] @ '' in tag <'' @ tagName @ ''>''"

definition attr_token ::
  "(string \<times> valid_values) list \<Rightarrow> string \<Rightarrow> string \<Rightarrow> string \<Rightarrow> report \<Rightarrow> report" where
  "attr_token table tagName attrName attrValue result =
     (case lookup_values table attrName of
        None \<Rightarrow> result
      | Some validValues \<Rightarrow>
          if \<not> is_valid validValues attrValue
          then push_error (invalid_value_message attrValue attrName tagName) result
          else result)"

partial_function (option) attr_loop ::
  "(string \<times> valid_values) list \<Rightarrow> string \<Rightarrow> string \<Rightarrow> report \<Rightarrow> report option" where
  "attr_loop table tagName s result =
     (case attr_exec s of
        None \<Rightarrow> Some result
      | Some (attrName, attrValue, rest) \<Rightarrow>
          attr_loop table tagName rest (attr_token table tagName attrName attrValue result))"

declare attr_loop.simps [code]

text \<open>The tag name is one of \<open>supportedTags\<close> at the only call, and none of these is a
  property name of \<open>Object.prototype\<close>: the outer lookup finds own properties only.\<close>

definition validateAttributes :: "string \<Rightarrow> string \<Rightarrow> report \<Rightarrow> report option" where
  "validateAttributes tagName attributes result =
     (case map_of validAttributeValues tagName of
        None \<Rightarrow> Some result
      | Some table \<Rightarrow> attr_loop table tagName attributes result)"

subsection \<open>\<open>_validateSSMLTags\<close>\<close>

text \<open>The loop that fills \<open>foundAttrs\<close>.\<close>

partial_function (option) found_loop :: "string \<Rightarrow> string set \<Rightarrow> string set option" where
  "found_loop s foundAttrs =
     (case attr_exec s of
        None \<Rightarrow> Some foundAttrs
      | Some (attrName, attrValue, rest) \<Rightarrow> found_loop rest (insert attrName foundAttrs))"

declare found_loop.simps [code]

definition missing_attribute_message :: "string \<Rightarrow> string \<Rightarrow> string" where
  "missing_attribute_message requiredAttr tagName =
     ''Missing required attribute '' @ [CHR 0x27] @ requiredAttr @ [CHR 0x27]
       @ '' for tag <'' @ tagName @ ''>''"

fun check_required :: "string \<Rightarrow> string set \<Rightarrow> string list \<Rightarrow> report \<Rightarrow> report" where
  "check_required tagName foundAttrs [] result = result"
| "check_required tagName foundAttrs (requiredAttr # others) result =
     check_required tagName foundAttrs others
       (if requiredAttr \<notin> foundAttrs
        then push_error (missing_attribute_message requiredAttr tagName) result
        else result)"

text \<open>The body of the loop for one match.\<close>

definition ssml_token :: "string \<Rightarrow> string \<Rightarrow> string \<Rightarrow> report \<Rightarrow> report option" where
  "ssml_token fullTag tagName attributes result =
     (if startsWith fullTag ''</'' then Some result
      else if tagName \<notin> set supportedTags
      then Some (push_warning (''Unsupported tag: <'' @ tagName @ ''>'') result)
      else
        do {
          r \<leftarrow> (case map_of requiredAttributes tagName of
                  Some required \<Rightarrow>
                    if \<not> includes_str fullTag ''/>'' then
                      do {
                        foundAttrs \<leftarrow> found_loop attributes {};
                        Some (check_required tagName foundAttrs required result)
                      }
                    else Some result
                | None \<Rightarrow> Some result);
          validateAttributes tagName attributes r
        })"

partial_function (option) ssml_loop :: "string \<Rightarrow> report \<Rightarrow> report option" where
  "ssml_loop s result =
     (case ssml_exec s of
        None \<Rightarrow> Some result
      | Some (fullTag, tagName, attributes, rest) \<Rightarrow>
          do {
            r \<leftarrow> ssml_token fullTag tagName attributes result;
            ssml_loop rest r
          })"

declare ssml_loop.simps [code]

definition validateSSMLTags :: "string \<Rightarrow> report \<Rightarrow> report option" where
  "validateSSMLTags ssml result = ssml_loop ssml result"

subsection \<open>\<open>_calculateMetrics\<close>\<close>

definition calculateMetrics :: "string \<Rightarrow> report \<Rightarrow> report" where
  "calculateMetrics ssml result =
     result\<lparr>info := \<lparr>characterCount = length (remove_matches ''<'' ssml),
                      tagCount = count_matches ''<'' ssml\<rparr>\<rparr>"

subsection \<open>\<open>_getMaxNesting\<close> and \<open>_checkCommonIssues\<close>\<close>

definition nesting_token :: "string \<Rightarrow> int \<times> int \<Rightarrow> int \<times> int" where
  "nesting_token fullTag st =
     (case st of (maxDepth, currentDepth) \<Rightarrow>
        if endsWith fullTag ''/>'' then (maxDepth, currentDepth)
        else if startsWith fullTag ''</'' then (maxDepth, currentDepth - 1)
        else (max maxDepth (currentDepth + 1), currentDepth + 1))"

partial_function (option) nesting_loop :: "string \<Rightarrow> int \<times> int \<Rightarrow> (int \<times> int) option" where
  "nesting_loop s st =
     (case xml_exec s of
        None \<Rightarrow> Some st
      | Some (fullTag, tagName, rest) \<Rightarrow> nesting_loop rest (nesting_token fullTag st))"

declare nesting_loop.simps [code]

definition getMaxNesting :: "string \<Rightarrow> int option" where
  "getMaxNesting ssml = map_option fst (nesting_loop ssml (0, 0))"

definition long_segment_warning :: string where
  "long_segment_warning =
     ''Long text segment without breaks - consider adding pauses for better speech flow''"

definition deep_nesting_warning :: string where
  "deep_nesting_warning = ''Deep tag nesting detected - consider simplifying structure''"

definition empty_tags_warning :: string where
  "empty_tags_warning = ''Empty tags detected - consider removing or adding content''"

text \<open>The loop over the segments stops at the first long one.\<close>

fun check_segments :: "string list \<Rightarrow> report \<Rightarrow> report" where
  "check_segments [] result = result"
| "check_segments (segment # others) result =
     (if length (remove_matches ''<'' segment) > 500
      then push_warning long_segment_warning result
      else check_segments others result)"

definition checkCommonIssues :: "string \<Rightarrow> report \<Rightarrow> report option" where
  "checkCommonIssues ssml result =
     do {
       let r1 = check_segments (split_matches ''<break'' [] ssml) result;
       maxNesting \<leftarrow> getMaxNesting ssml;
       let r2 = (if maxNesting > 5 then push_warning deep_nesting_warning r1 else r1);
       Some (if includes_str ssml ''><'' then push_warning empty_tags_warning r2 else r2)
     }"

subsection \<open>\<open>validate\<close>\<close>

text \<open>
  The \<open>try\<close> block: the five calls in their order, each on the report the one before
  left. No statement of the block throws on a string: the array is popped only when it
  is not empty, and a table is indexed or iterated only after the test that it is there.
  So the \<open>catch\<close> block has nothing to catch.
\<close>

definition run_passes :: "string \<Rightarrow> report \<Rightarrow> report option" where
  "run_passes ssml result =
     do {
       let r1 = validateBasicStructure ssml result;
       r2 \<leftarrow> validateXMLStructure ssml r1;
       r3 \<leftarrow> validateSSMLTags ssml r2;
       let r4 = calculateMetrics ssml r3;
       checkCommonIssues ssml r4
     }"

text \<open>After the block, \<open>result.valid = result.errors.length === 0\<close>.\<close>

definition validate :: "string \<Rightarrow> report option" where
  "validate ssml =
     do {
       result \<leftarrow> run_passes ssml initial_report;
       Some (result\<lparr>valid := (length (errors result) = 0)\<rparr>)
     }"

section \<open>The documents of the examples\<close>

text \<open>The documents the properties are tried on; \<open>quoted\<close> puts a value between
  double quotes.\<close>

definition quoted :: "string \<Rightarrow> string" where
  "quoted v = [CHR 0x22] @ v @ [CHR 0x22]"

definition hello_document :: string where
  "hello_document =
     ''<speak>Hello <emphasis level='' @ quoted ''strong'' @ ''>world</emphasis>!</speak>''"

definition speaker_document :: string where
  "speaker_document = ''<speaker>x</speak>''"

definition unterminated_document :: string where
  "unterminated_document = ''<speak>unterminated''"

definition badtag_document :: string where
  "badtag_document = ''<speak><badtag>x</badtag></speak>''"

definition break_document :: string where
  "break_document = ''<speak><break strength='' @ quoted ''invalid-value'' @ ''/></speak>''"

definition mismatched_document :: string where
  "mismatched_document = ''<a></b >''"

definition five_levels :: string where
  "five_levels = ''<speak><p><s><prosody><emphasis>x</emphasis></prosody></s></p></speak>''"

definition six_levels :: string where
  "six_levels =
     ''<speak><p><s><prosody><emphasis><lang>x</lang></emphasis></prosody></s></p></speak>''"

definition phoneme_document :: string where
  "phoneme_document =
     ''<speak><phoneme alphabet='' @ quoted ''ipa'' @ ''>x</phoneme><phoneme/></speak>''"

definition stack_document :: string where
  "stack_document = ''</x><a><b/><c><d></c>''"

section \<open>The matches of a loop as a list\<close>

text \<open>
  All matches a loop over \<open>exec\<close> sees, in their order. Each match leaves less text to
  read, so the lists are finite.
\<close>

function xml_tokens :: "string \<Rightarrow> (string \<times> string) list" where
  "xml_tokens s =
     (case xml_exec s of
        None \<Rightarrow> []
      | Some (fullTag, tagName, rest) \<Rightarrow> (fullTag, tagName) # xml_tokens rest)"
  by pat_completeness auto
termination
proof (relation "measure length")
  fix s :: string and m fullTag tagRest tagName rest
  assume "xml_exec s = Some m" and "(fullTag, tagRest) = m" and "(tagName, rest) = tagRest"
  then have found: "xml_exec s = Some (fullTag, tagName, rest)" by simp
  have at: "length r < length t" if "xml_tag_at t = Some (f, n, r)" for t f n r
  proof (cases t)
    case Nil
    with that show ?thesis by (simp add: xml_tag_at_def)
  next
    case (Cons c u)
    let ?u = "drop (length (if startsWith u ''/'' then ''/'' else [])) u"
    let ?v = "dropWhile is_name_char ?u"
    from that Cons have gt: "CHR ''>'' \<in> set ?v" and r: "r = tl (dropWhile not_gt ?v)"
      by (auto simp: xml_tag_at_def Let_def split: if_splits)
    from gt have "dropWhile not_gt ?v \<noteq> []"
      by (auto simp: dropWhile_eq_Nil_conv not_gt_def)
    then have "length r < length (dropWhile not_gt ?v)"
      unfolding r by (cases "dropWhile not_gt ?v") auto
    also have "\<dots> \<le> length ?v" by (rule length_dropWhile_le)
    also have "\<dots> \<le> length ?u" by (rule length_dropWhile_le)
    also have "\<dots> \<le> length u" by simp
    finally show ?thesis using Cons by simp
  qed
  have "length r < length t" if "xml_exec t = Some (f, n, r)" for t f n r
    using that by (induction t) (auto split: option.splits dest: at)
  from this [OF found] show "(rest, s) \<in> measure length" by simp
qed simp

declare xml_tokens.simps [simp del]

function ssml_tokens :: "string \<Rightarrow> (string \<times> string \<times> string) list" where
  "ssml_tokens s =
     (case ssml_exec s of
        None \<Rightarrow> []
      | Some (fullTag, tagName, attributes, rest) \<Rightarrow>
          (fullTag, tagName, attributes) # ssml_tokens rest)"
  by pat_completeness auto
termination
proof (relation "measure length")
  fix s :: string and m fullTag tagRest tagName attrRest attributes rest
  assume "ssml_exec s = Some m" and "(fullTag, tagRest) = m"
    and "(tagName, attrRest) = tagRest" and "(attributes, rest) = attrRest"
  then have found: "ssml_exec s = Some (fullTag, tagName, attributes, rest)" by simp
  have at: "length r < length t" if "ssml_tag_at t = Some (f, n, a, r)" for t f n a r
  proof (cases t)
    case Nil
    with that show ?thesis by (simp add: ssml_tag_at_def)
  next
    case (Cons c u)
    let ?v = "dropWhile is_name_char u"
    from that Cons have gt: "CHR ''>'' \<in> set ?v" and r: "r = tl (dropWhile not_gt ?v)"
      by (auto simp: ssml_tag_at_def Let_def split: if_splits)
    from gt have "dropWhile not_gt ?v \<noteq> []"
      by (auto simp: dropWhile_eq_Nil_conv not_gt_def)
    then have "length r < length (dropWhile not_gt ?v)"
      unfolding r by (cases "dropWhile not_gt ?v") auto
    also have "\<dots> \<le> length ?v" by (rule length_dropWhile_le)
    also have "\<dots> \<le> length u" by (rule length_dropWhile_le)
    finally show ?thesis using Cons by simp
  qed
  have "length r < length t" if "ssml_exec t = Some (f, n, a, r)" for t f n a r
    using that by (induction t) (auto split: option.splits dest: at)
  from this [OF found] show "(rest, s) \<in> measure length" by simp
qed simp

declare ssml_tokens.simps [simp del]

function attr_tokens :: "string \<Rightarrow> (string \<times> string) list" where
  "attr_tokens s =
     (case attr_exec s of
        None \<Rightarrow> []
      | Some (attrName, attrValue, rest) \<Rightarrow> (attrName, attrValue) # attr_tokens rest)"
  by pat_completeness auto
termination
proof (relation "measure length")
  fix s :: string and m attrName valueRest attrValue rest
  assume "attr_exec s = Some m" and "(attrName, valueRest) = m"
    and "(attrValue, rest) = valueRest"
  then have found: "attr_exec s = Some (attrName, attrValue, rest)" by simp
  have at: "length r < length t" if "attr_at t = Some (n, v, r)" for t n v r
  proof -
    let ?v = "dropWhile is_attr_char t"
    from that have q: "CHR 0x22 \<in> set (drop 2 ?v)"
      and r: "r = tl (dropWhile not_quote (drop 2 ?v))"
      by (auto simp: attr_at_def Let_def split: if_splits)
    from q have "dropWhile not_quote (drop 2 ?v) \<noteq> []"
      by (auto simp: dropWhile_eq_Nil_conv not_quote_def)
    then have "length r < length (dropWhile not_quote (drop 2 ?v))"
      unfolding r by (cases "dropWhile not_quote (drop 2 ?v)") auto
    also have "\<dots> \<le> length (drop 2 ?v)" by (rule length_dropWhile_le)
    also have "\<dots> \<le> length ?v" by simp
    also have "\<dots> \<le> length t" by (rule length_dropWhile_le)
    finally show ?thesis .
  qed
  have "length r < length t" if "attr_exec t = Some (n, v, r)" for t n v r
    using that by (induction t) (auto split: option.splits dest: at)
  from this [OF found] show "(rest, s) \<in> measure length" by simp
qed simp

declare attr_tokens.simps [simp del]

section \<open>What the passes emit, as functions of the document\<close>

text \<open>
  The definitions of this section describe the passes for the proofs: what each adds to
  the report, as lists that depend on the document alone. The lemmas below prove that
  the passes of the code compute them.
\<close>

text \<open>To add errors and warnings at the end of the lists of a report.\<close>

definition emit :: "string list \<Rightarrow> string list \<Rightarrow> report \<Rightarrow> report" where
  "emit es ws result = result\<lparr>errors := errors result @ es, warnings := warnings result @ ws\<rparr>"

text \<open>The errors of the root-structure pass.\<close>

definition basic_errors :: "string \<Rightarrow> string list" where
  "basic_errors ssml =
     (if \<not> startsWith (trim ssml) ''<speak'' then [''SSML must start with <speak> tag''] else [])
     @ (if \<not> endsWith (trim ssml) ''</speak>'' then [''SSML must end with </speak> tag''] else [])
     @ (if count_matches ''<speak'' ssml \<noteq> count_literal ''</speak>'' ssml
        then [''Unbalanced <speak> tags''] else [])
     @ (if count_matches ''<speak'' ssml > 1
        then [''Multiple <speak> tags found - only one is allowed''] else [])"

text \<open>
  The kinds of tokens, and the kind of a match in \<open>_validateXMLStructure\<close>: a match that
  contains \<open>/>\<close> and does not begin with \<open></\<close> is self-closing, one that begins with
  \<open></\<close> is closing, any other is opening.
\<close>

datatype kind = Opening | Closing | SelfClosing

definition xml_kind :: "string \<Rightarrow> kind" where
  "xml_kind fullTag =
     (if includes_str fullTag ''/>'' \<and> \<not> startsWith fullTag ''</'' then SelfClosing
      else if startsWith fullTag ''</'' then Closing
      else Opening)"

text \<open>
  The procedure of the well-formedness check on a list of tokens, each with its kind, its
  name and its text, and the stack of the open names, the top first. It returns the
  errors, in their order.
\<close>

fun wellformed :: "(kind \<times> string \<times> string) list \<Rightarrow> string list \<Rightarrow> string list" where
  "wellformed [] opened = (if opened = [] then [] else [unclosed_message (rev opened)])"
| "wellformed ((Opening, name, text) # ts) opened = wellformed ts (name # opened)"
| "wellformed ((SelfClosing, name, text) # ts) opened = wellformed ts opened"
| "wellformed ((Closing, name, text) # ts) [] =
     (''Unexpected closing tag: '' @ text) # wellformed ts []"
| "wellformed ((Closing, name, text) # ts) (topmost # opened) =
     (if topmost \<noteq> name then [''Mismatched tags: expected </'' @ topmost @ ''>, found '' @ text]
      else [])
     @ wellformed ts opened"

definition xml_classified :: "string \<Rightarrow> (kind \<times> string \<times> string) list" where
  "xml_classified ssml =
     map (\<lambda>(fullTag, tagName). (xml_kind fullTag, tagName, fullTag)) (xml_tokens ssml)"

text \<open>The test after the loop of \<open>_validateXMLStructure\<close>.\<close>

definition xml_finish :: "string list \<times> report \<Rightarrow> report" where
  "xml_finish st =
     (case st of (stack, r) \<Rightarrow>
        if length stack > 0 then push_error (unclosed_message stack) r else r)"

definition xml_errors :: "string \<Rightarrow> string list" where
  "xml_errors ssml = wellformed (xml_classified ssml) []"

text \<open>The errors of the schema pass for one match: those of the required attributes
  and those of the attribute values; and its warning.\<close>

definition missing_errors :: "string \<Rightarrow> string set \<Rightarrow> string list \<Rightarrow> string list" where
  "missing_errors tagName foundAttrs required =
     map (\<lambda>requiredAttr. missing_attribute_message requiredAttr tagName)
       (filter (\<lambda>requiredAttr. requiredAttr \<notin> foundAttrs) required)"

definition value_error ::
  "(string \<times> valid_values) list \<Rightarrow> string \<Rightarrow> string \<times> string \<Rightarrow> string list" where
  "value_error table tagName attr =
     (case attr of (attrName, attrValue) \<Rightarrow>
        (case lookup_values table attrName of
           None \<Rightarrow> []
         | Some validValues \<Rightarrow>
             if is_valid validValues attrValue then []
             else [invalid_value_message attrValue attrName tagName]))"

definition value_errors :: "string \<Rightarrow> string \<Rightarrow> string list" where
  "value_errors tagName attributes =
     (case map_of validAttributeValues tagName of
        None \<Rightarrow> []
      | Some table \<Rightarrow> concat (map (value_error table tagName) (attr_tokens attributes)))"

definition required_errors :: "string \<Rightarrow> string \<Rightarrow> string \<Rightarrow> string list" where
  "required_errors fullTag tagName attributes =
     (case map_of requiredAttributes tagName of
        None \<Rightarrow> []
      | Some required \<Rightarrow>
          if includes_str fullTag ''/>'' then []
          else missing_errors tagName (fst ` set (attr_tokens attributes)) required)"

definition tag_errors :: "string \<times> string \<times> string \<Rightarrow> string list" where
  "tag_errors tok =
     (case tok of (fullTag, tagName, attributes) \<Rightarrow>
        if startsWith fullTag ''</'' \<or> tagName \<notin> set supportedTags then []
        else required_errors fullTag tagName attributes @ value_errors tagName attributes)"

definition tag_warnings :: "string \<times> string \<times> string \<Rightarrow> string list" where
  "tag_warnings tok =
     (case tok of (fullTag, tagName, attributes) \<Rightarrow>
        if \<not> startsWith fullTag ''</'' \<and> tagName \<notin> set supportedTags
        then [''Unsupported tag: <'' @ tagName @ ''>''] else [])"

definition schema_errors :: "string \<Rightarrow> string list" where
  "schema_errors ssml = concat (map tag_errors (ssml_tokens ssml))"

definition schema_warnings :: "string \<Rightarrow> string list" where
  "schema_warnings ssml = concat (map tag_warnings (ssml_tokens ssml))"

text \<open>The warnings of \<open>_checkCommonIssues\<close>.\<close>

definition max_nesting :: "string \<Rightarrow> int" where
  "max_nesting ssml =
     fst (fold (\<lambda>(fullTag, tagName). nesting_token fullTag) (xml_tokens ssml) (0, 0))"

definition has_long_segment :: "string list \<Rightarrow> bool" where
  "has_long_segment segments =
     list_ex (\<lambda>segment. length (remove_matches ''<'' segment) > 500) segments"

definition common_warnings :: "string \<Rightarrow> string list" where
  "common_warnings ssml =
     (if has_long_segment (split_matches ''<break'' [] ssml) then [long_segment_warning] else [])
     @ (if max_nesting ssml > 5 then [deep_nesting_warning] else [])
     @ (if includes_str ssml ''><'' then [empty_tags_warning] else [])"

text \<open>The errors and the warnings of the whole call.\<close>

definition all_errors :: "string \<Rightarrow> string list" where
  "all_errors ssml = basic_errors ssml @ xml_errors ssml @ schema_errors ssml"

definition all_warnings :: "string \<Rightarrow> string list" where
  "all_warnings ssml = schema_warnings ssml @ common_warnings ssml"

text \<open>
  The language of a pattern: the strings that the regular expression between \<open>^\<close> and
  \<open>$\<close> matches as a whole. \<open>repeated L\<close> is one or more strings of \<open>L\<close> in a row.
\<close>

inductive_set repeated :: "string set \<Rightarrow> string set" for L :: "string set" where
  once: "u \<in> L \<Longrightarrow> u \<in> repeated L"
| again: "u \<in> L \<Longrightarrow> v \<in> repeated L \<Longrightarrow> u @ v \<in> repeated L"

fun lang :: "pattern \<Rightarrow> string set" where
  "lang Never = {}"
| "lang Empty = {[]}"
| "lang (Lit c) = {[c]}"
| "lang Digit = {[c] |c. is_digit c}"
| "lang (OneOf cs) = {[c] |c. c \<in> set cs}"
| "lang (Seq p q) = {u @ v |u v. u \<in> lang p \<and> v \<in> lang q}"
| "lang (Alt p q) = lang p \<union> lang q"
| "lang (Plus p) = repeated (lang p)"
| "lang (Opt p) = insert [] (lang p)"

text \<open>The error of the missing opening root tag.\<close>

definition start_message :: string where
  "start_message = ''SSML must start with <speak> tag''"

text \<open>Whether the name of a match of the schema pass is a supported tag, and the
  warning when it is not.\<close>

definition supported :: "string \<times> string \<times> string \<Rightarrow> bool" where
  "supported tok = (case tok of (fullTag, tagName, attributes) \<Rightarrow> tagName \<in> set supportedTags)"

definition unsupported_message :: "string \<times> string \<times> string \<Rightarrow> string" where
  "unsupported_message tok =
     (case tok of (fullTag, tagName, attributes) \<Rightarrow> ''Unsupported tag: <'' @ tagName @ ''>'')"

text \<open>
  The alternatives of a constraint, and what it is for a value to satisfy one: to equal
  the literal, or to belong to the language of the pattern.
\<close>

fun alternatives :: "valid_values \<Rightarrow> alternative list" where
  "alternatives (ValueList vs) = vs"
| "alternatives (Pattern p) = [Rx p]"
| "alternatives Inherited = []"

fun satisfies :: "string \<Rightarrow> alternative \<Rightarrow> bool" where
  "satisfies attrValue (Str v) = (attrValue = v)"
| "satisfies attrValue (Rx p) = (attrValue \<in> lang p)"

definition accepted :: "valid_values \<Rightarrow> string \<Rightarrow> bool" where
  "accepted validValues attrValue =
     (\<exists>alt \<in> set (alternatives validValues). satisfies attrValue alt)"

text \<open>The table of \<open>validAttributeValues\<close> for \<open>break\<close>.\<close>

definition break_table :: "(string \<times> valid_values) list" where
  "break_table =
     [(''strength'', ValueList (map Str
         [''none'', ''x-weak'', ''weak'', ''medium'', ''strong'', ''x-strong''])),
      (''time'', Pattern time_pattern)]"

text \<open>
  The kinds of \<open>_getMaxNesting\<close>: a match that ends with \<open>/>\<close> is self-closing, one that
  begins with \<open></\<close> is closing, any other is opening. The depth after some tokens is the
  number of the opening ones less the number of the closing ones.
\<close>

definition nesting_kind :: "string \<times> string \<Rightarrow> kind" where
  "nesting_kind tok =
     (if endsWith (fst tok) ''/>'' then SelfClosing
      else if startsWith (fst tok) ''</'' then Closing
      else Opening)"

fun depth_change :: "kind \<Rightarrow> int" where
  "depth_change Opening = 1"
| "depth_change Closing = - 1"
| "depth_change SelfClosing = 0"

definition depth_after :: "kind list \<Rightarrow> int" where
  "depth_after ks = sum_list (map depth_change ks)"

text \<open>The greatest depth after a prefix of the tokens, the empty prefix included.\<close>

fun peak :: "kind list \<Rightarrow> int" where
  "peak [] = 0"
| "peak (k # ks) = max 0 (depth_change k + peak ks)"

text \<open>
  A document that nests the tags of the names \<open>ns\<close>, the first outermost, around a
  body; a name is one or more characters of the class of the tag expressions.
\<close>

definition tag_name :: "string \<Rightarrow> bool" where
  "tag_name n = (n \<noteq> [] \<and> list_all is_name_char n)"

definition open_tag :: "string \<Rightarrow> string" where
  "open_tag n = ''<'' @ n @ ''>''"

definition close_tag :: "string \<Rightarrow> string" where
  "close_tag n = ''</'' @ n @ ''>''"

definition nested :: "string list \<Rightarrow> string \<Rightarrow> string" where
  "nested ns body = concat (map open_tag ns) @ body @ concat (map close_tag (rev ns))"

section \<open>The loops as folds over their matches\<close>

lemma xml_loop_fold:
  "xml_loop s st = Some (fold (\<lambda>(fullTag, tagName). xml_token fullTag tagName) (xml_tokens s) st)"
proof (induction s arbitrary: st rule: xml_tokens.induct)
  case (1 s)
  show ?case
  proof (cases "xml_exec s")
    case None
    then show ?thesis by (subst xml_loop.simps, subst xml_tokens.simps) simp
  next
    case (Some m)
    obtain fullTag tagName rest where m: "m = (fullTag, tagName, rest)" by (cases m) auto
    show ?thesis
      using Some m "1.IH" [OF Some [unfolded m] refl refl, of "xml_token fullTag tagName st"]
      by (subst xml_loop.simps, subst xml_tokens.simps) simp
  qed
qed

lemma nesting_loop_fold:
  "nesting_loop s st = Some (fold (\<lambda>(fullTag, tagName). nesting_token fullTag) (xml_tokens s) st)"
proof (induction s arbitrary: st rule: xml_tokens.induct)
  case (1 s)
  show ?case
  proof (cases "xml_exec s")
    case None
    then show ?thesis by (subst nesting_loop.simps, subst xml_tokens.simps) simp
  next
    case (Some m)
    obtain fullTag tagName rest where m: "m = (fullTag, tagName, rest)" by (cases m) auto
    show ?thesis
      using Some m "1.IH" [OF Some [unfolded m] refl refl, of "nesting_token fullTag st"]
      by (subst nesting_loop.simps, subst xml_tokens.simps) simp
  qed
qed

lemma found_loop_fold:
  "found_loop s foundAttrs = Some (foundAttrs \<union> fst ` set (attr_tokens s))"
proof (induction s arbitrary: foundAttrs rule: attr_tokens.induct)
  case (1 s)
  show ?case
  proof (cases "attr_exec s")
    case None
    then show ?thesis by (subst found_loop.simps, subst attr_tokens.simps) simp
  next
    case (Some m)
    obtain attrName attrValue rest where m: "m = (attrName, attrValue, rest)" by (cases m) auto
    show ?thesis
      using Some m "1.IH" [OF Some [unfolded m] refl refl, of "insert attrName foundAttrs"]
      by (subst found_loop.simps, subst attr_tokens.simps) simp
  qed
qed

lemma attr_loop_fold:
  "attr_loop table tagName s result =
     Some (fold (\<lambda>(attrName, attrValue). attr_token table tagName attrName attrValue)
             (attr_tokens s) result)"
proof (induction s arbitrary: result rule: attr_tokens.induct)
  case (1 s)
  show ?case
  proof (cases "attr_exec s")
    case None
    then show ?thesis by (subst attr_loop.simps, subst attr_tokens.simps) simp
  next
    case (Some m)
    obtain attrName attrValue rest where m: "m = (attrName, attrValue, rest)" by (cases m) auto
    show ?thesis
      using Some m "1.IH" [OF Some [unfolded m] refl refl,
          of "attr_token table tagName attrName attrValue result"]
      by (subst attr_loop.simps, subst attr_tokens.simps) simp
  qed
qed

section \<open>What each pass adds to the report\<close>

lemma emit_nothing: "emit [] [] result = result"
  by (simp add: emit_def)

lemma emit_emit: "emit es' ws' (emit es ws result) = emit (es @ es') (ws @ ws') result"
  by (simp add: emit_def)

lemma push_error_emit: "push_error msg result = emit [msg] [] result"
  by (simp add: push_error_def emit_def)

lemma push_warning_emit: "push_warning msg result = emit [] [msg] result"
  by (simp add: push_warning_def emit_def)

lemma emit_fields:
  "errors (emit es ws result) = errors result @ es"
  "warnings (emit es ws result) = warnings result @ ws"
  "info (emit es ws result) = info result"
  "valid (emit es ws result) = valid result"
  by (simp_all add: emit_def)

subsection \<open>The root-structure pass\<close>

lemma validateBasicStructure_emit:
  "validateBasicStructure ssml result = emit (basic_errors ssml) [] result"
  by (simp add: validateBasicStructure_def basic_errors_def Let_def push_error_emit emit_emit
      emit_nothing)

subsection \<open>The well-formedness pass\<close>

lemma xml_fold_emit:
  "xml_finish (fold (\<lambda>(fullTag, tagName). xml_token fullTag tagName) toks (stack, result))
   = emit (wellformed (map (\<lambda>(fullTag, tagName). (xml_kind fullTag, tagName, fullTag)) toks)
            (rev stack)) [] result"
proof (induction toks arbitrary: stack result)
  case Nil
  then show ?case by (simp add: xml_finish_def push_error_emit emit_nothing)
next
  case (Cons tok toks)
  obtain fullTag tagName where tok: "tok = (fullTag, tagName)" by (cases tok)
  show ?case
  proof (cases "xml_kind fullTag")
    case Opening
    then have "xml_token fullTag tagName (stack, result) = (stack @ [tagName], result)"
      by (auto simp: xml_kind_def xml_token_def split: if_splits)
    with Opening tok Cons.IH [of "stack @ [tagName]" result] show ?thesis by simp
  next
    case SelfClosing
    then have "xml_token fullTag tagName (stack, result) = (stack, result)"
      by (auto simp: xml_kind_def xml_token_def split: if_splits)
    with SelfClosing tok Cons.IH [of stack result] show ?thesis by simp
  next
    case Closing
    then have cl: "startsWith fullTag ''</''"
      by (auto simp: xml_kind_def split: if_splits)
    show ?thesis
    proof (cases "stack = []")
      case True
      with cl have "xml_token fullTag tagName (stack, result)
          = ([], emit [''Unexpected closing tag: '' @ fullTag] [] result)"
        by (simp add: xml_token_def push_error_emit)
      with Closing tok True Cons.IH [of "[]" "emit [''Unexpected closing tag: '' @ fullTag] [] result"]
      show ?thesis by (simp add: emit_emit)
    next
      case False
      then have rv: "rev stack = last stack # rev (butlast stack)"
        by (metis append_butlast_last_id rev.simps(2) rev_append rev_singleton_conv rev_rev_ident append_Cons append_Nil)
      let ?es = "if last stack \<noteq> tagName
                 then [''Mismatched tags: expected </'' @ last stack @ ''>, found '' @ fullTag]
                 else []"
      from cl False have "xml_token fullTag tagName (stack, result)
          = (butlast stack, emit ?es [] result)"
        by (simp add: xml_token_def push_error_emit emit_nothing)
      with Closing tok Cons.IH [of "butlast stack" "emit ?es [] result"]
      show ?thesis by (simp add: emit_emit emit_nothing rv)
    qed
  qed
qed

lemma validateXMLStructure_emit:
  "validateXMLStructure ssml result = Some (emit (xml_errors ssml) [] result)"
proof -
  have "validateXMLStructure ssml result
      = Some (xml_finish (fold (\<lambda>(fullTag, tagName). xml_token fullTag tagName)
                (xml_tokens ssml) ([], result)))"
    by (simp add: validateXMLStructure_def xml_loop_fold xml_finish_def split: prod.splits)
  then show ?thesis
    by (simp add: xml_fold_emit xml_errors_def xml_classified_def)
qed

subsection \<open>The schema pass\<close>

lemma check_required_emit:
  "check_required tagName foundAttrs required result
   = emit (missing_errors tagName foundAttrs required) [] result"
  by (induction required arbitrary: result)
     (simp_all add: missing_errors_def emit_nothing push_error_emit emit_emit)

lemma attr_token_emit:
  "attr_token table tagName attrName attrValue result
   = emit (value_error table tagName (attrName, attrValue)) [] result"
  by (simp add: attr_token_def value_error_def emit_nothing push_error_emit
      split: option.splits)

lemma attr_fold_emit:
  "fold (\<lambda>(attrName, attrValue). attr_token table tagName attrName attrValue) attrs result
   = emit (concat (map (value_error table tagName) attrs)) [] result"
proof (induction attrs arbitrary: result)
  case Nil
  then show ?case by (simp add: emit_nothing)
next
  case (Cons attr attrs)
  obtain attrName attrValue where "attr = (attrName, attrValue)" by (cases attr)
  with Cons.IH show ?case by (simp add: attr_token_emit emit_emit)
qed

lemma validateAttributes_emit:
  "validateAttributes tagName attributes result
   = Some (emit (value_errors tagName attributes) [] result)"
  by (simp add: validateAttributes_def value_errors_def attr_loop_fold attr_fold_emit
      emit_nothing split: option.splits)

lemma ssml_token_emit:
  "ssml_token fullTag tagName attributes result
   = Some (emit (tag_errors (fullTag, tagName, attributes))
             (tag_warnings (fullTag, tagName, attributes)) result)"
proof -
  consider (closing) "startsWith fullTag ''</''"
    | (unsupported) "\<not> startsWith fullTag ''</''" "tagName \<notin> set supportedTags"
    | (supported) "\<not> startsWith fullTag ''</''" "tagName \<in> set supportedTags"
    by blast
  then show ?thesis
  proof cases
    case closing
    then show ?thesis
      by (simp add: ssml_token_def tag_errors_def tag_warnings_def emit_nothing)
  next
    case unsupported
    then show ?thesis
      by (simp add: ssml_token_def tag_errors_def tag_warnings_def push_warning_emit)
  next
    case supported
    then show ?thesis
      by (simp add: ssml_token_def tag_errors_def tag_warnings_def required_errors_def
          found_loop_fold check_required_emit validateAttributes_emit emit_emit emit_nothing
          split: option.splits)
  qed
qed

lemma ssml_loop_emit:
  "ssml_loop s result
   = Some (emit (concat (map tag_errors (ssml_tokens s)))
             (concat (map tag_warnings (ssml_tokens s))) result)"
proof (induction s arbitrary: result rule: ssml_tokens.induct)
  case (1 s)
  show ?case
  proof (cases "ssml_exec s")
    case None
    then show ?thesis
      by (subst ssml_loop.simps, subst (1 2) ssml_tokens.simps) (simp add: emit_nothing)
  next
    case (Some m)
    obtain fullTag tagName attributes rest where m: "m = (fullTag, tagName, attributes, rest)"
      by (cases m) auto
    show ?thesis
      using Some m "1.IH" [OF Some [unfolded m] refl refl refl]
      by (subst ssml_loop.simps, subst (1 2) ssml_tokens.simps)
         (simp add: ssml_token_emit emit_emit)
  qed
qed

lemma validateSSMLTags_emit:
  "validateSSMLTags ssml result
   = Some (emit (schema_errors ssml) (schema_warnings ssml) result)"
  by (simp add: validateSSMLTags_def ssml_loop_emit schema_errors_def schema_warnings_def)

subsection \<open>The metrics and the heuristics\<close>

lemma calculateMetrics_emit:
  "calculateMetrics ssml (emit es ws result) = emit es ws (calculateMetrics ssml result)"
  by (simp add: calculateMetrics_def emit_def)

lemma getMaxNesting_eq: "getMaxNesting ssml = Some (max_nesting ssml)"
  by (simp add: getMaxNesting_def nesting_loop_fold max_nesting_def)

lemma check_segments_emit:
  "check_segments segments result
   = emit [] (if has_long_segment segments then [long_segment_warning] else []) result"
  by (induction segments)
     (simp_all add: has_long_segment_def emit_nothing push_warning_emit)

lemma checkCommonIssues_emit:
  "checkCommonIssues ssml result = Some (emit [] (common_warnings ssml) result)"
  by (simp add: checkCommonIssues_def getMaxNesting_eq check_segments_emit common_warnings_def
      push_warning_emit emit_emit emit_nothing)

subsection \<open>The whole call\<close>

lemma run_passes_emit:
  "run_passes ssml result
   = Some (emit (all_errors ssml) (all_warnings ssml) (calculateMetrics ssml result))"
  by (simp add: run_passes_def validateBasicStructure_emit validateXMLStructure_emit
      validateSSMLTags_emit calculateMetrics_emit checkCommonIssues_emit emit_emit
      all_errors_def all_warnings_def)

lemma validate_eq:
  "validate ssml =
     Some \<lparr>valid = (all_errors ssml = []),
           errors = all_errors ssml,
           warnings = all_warnings ssml,
           info = \<lparr>characterCount = length (remove_matches ''<'' ssml),
                   tagCount = count_matches ''<'' ssml\<rparr>\<rparr>"
  by (simp add: validate_def run_passes_emit emit_def calculateMetrics_def initial_report_def)

section \<open>The language of a pattern\<close>

lemma repeated_Nil: "[] \<in> repeated L \<longleftrightarrow> [] \<in> L"
proof
  assume "[] \<in> repeated L"
  then show "[] \<in> L"
    by (induction "[]::string" rule: repeated.induct) auto
next
  assume "[] \<in> L"
  then show "[] \<in> repeated L" by (rule repeated.once)
qed

lemma nullable_lang: "nullable p \<longleftrightarrow> [] \<in> lang p"
  by (induction p) (auto simp: repeated_Nil)

lemma repeated_Cons:
  "c # s \<in> repeated L \<longleftrightarrow>
     (\<exists>u v. s = u @ v \<and> c # u \<in> L \<and> (v = [] \<or> v \<in> repeated L))"
proof
  assume "c # s \<in> repeated L"
  then show "\<exists>u v. s = u @ v \<and> c # u \<in> L \<and> (v = [] \<or> v \<in> repeated L)"
  proof (induction "c # s" arbitrary: s rule: repeated.induct)
    case once
    then show ?case by auto
  next
    case (again u v)
    show ?case
    proof (cases u)
      case Nil
      with again show ?thesis by auto
    next
      case (Cons d u')
      with again.hyps(1,2,4) show ?thesis by auto
    qed
  qed
next
  assume "\<exists>u v. s = u @ v \<and> c # u \<in> L \<and> (v = [] \<or> v \<in> repeated L)"
  then obtain u v where s: "s = u @ v" and u: "c # u \<in> L" and v: "v = [] \<or> v \<in> repeated L"
    by blast
  from v show "c # s \<in> repeated L"
  proof
    assume "v = []"
    with s u show ?thesis by (simp add: repeated.once)
  next
    assume "v \<in> repeated L"
    with u have "(c # u) @ v \<in> repeated L" by (rule repeated.again)
    with s show ?thesis by simp
  qed
qed

lemma lang_SeqI: "u \<in> lang p \<Longrightarrow> v \<in> lang q \<Longrightarrow> u @ v \<in> lang (Seq p q)"
  by auto

lemma deriv_lang: "s \<in> lang (deriv c p) \<longleftrightarrow> c # s \<in> lang p"
proof (induction p arbitrary: s)
  case (Seq p q)
  show ?case
  proof
    assume "s \<in> lang (deriv c (Seq p q))"
    then consider (left) u v where "s = u @ v" "u \<in> lang (deriv c p)" "v \<in> lang q"
      | (right) "nullable p" "s \<in> lang (deriv c q)"
      by (auto split: if_splits)
    then show "c # s \<in> lang (Seq p q)"
    proof cases
      case left
      then have "c # u \<in> lang p" using Seq.IH(1) by simp
      with left have "(c # u) @ v \<in> lang (Seq p q)" by (intro lang_SeqI)
      with left show ?thesis by simp
    next
      case right
      then have "[] \<in> lang p" "c # s \<in> lang q" using Seq.IH(2) by (simp_all add: nullable_lang)
      then have "[] @ (c # s) \<in> lang (Seq p q)" by (intro lang_SeqI)
      then show ?thesis by simp
    qed
  next
    assume "c # s \<in> lang (Seq p q)"
    then obtain u v where uv: "c # s = u @ v" "u \<in> lang p" "v \<in> lang q" by auto
    show "s \<in> lang (deriv c (Seq p q))"
    proof (cases u)
      case Nil
      with uv have "nullable p" "s \<in> lang (deriv c q)"
        using Seq.IH(2) by (simp_all add: nullable_lang)
      then show ?thesis by simp
    next
      case (Cons d u')
      with uv have "s = u' @ v" "u' \<in> lang (deriv c p)" using Seq.IH(1) by simp_all
      with uv(3) show ?thesis by auto
    qed
  qed
next
  case (Plus p)
  show ?case
  proof
    assume "s \<in> lang (deriv c (Plus p))"
    then obtain u v where "s = u @ v" "u \<in> lang (deriv c p)" "v = [] \<or> v \<in> repeated (lang p)"
      by auto
    then show "c # s \<in> lang (Plus p)"
      using Plus.IH by (auto simp: repeated_Cons)
  next
    assume "c # s \<in> lang (Plus p)"
    then obtain u v where "s = u @ v" "c # u \<in> lang p" "v = [] \<or> v \<in> repeated (lang p)"
      by (auto simp: repeated_Cons)
    then show "s \<in> lang (deriv c (Plus p))"
      using Plus.IH by auto
  qed
qed auto

lemma test_lang: "test p s \<longleftrightarrow> s \<in> lang p"
  by (induction s arbitrary: p) (simp_all add: nullable_lang deriv_lang)

section \<open>The report of the greeting\<close>

lemma validate_hello_document:
  "validate hello_document =
     Some \<lparr>valid = True, errors = [], warnings = [],
           info = \<lparr>characterCount = 12, tagCount = 4\<rparr>\<rparr>"
  by code_simp

text \<open>
  C2, as the code has it: the greeting is valid and has no error; its text
  \<open>Hello world!\<close> has 12 characters and it has 4 tags (\<open>speak\<close> and \<open>emphasis\<close>, each
  opened and closed).
\<close>

theorem hello_document_report:
  "map_option valid (validate hello_document) = Some True
   \<and> map_option errors (validate hello_document) = Some []
   \<and> map_option info (validate hello_document)
       = Some \<lparr>characterCount = 12, tagCount = 4\<rparr>"
  by (simp add: validate_hello_document)

text \<open>C2, as stated, fails: the counts are not 13 and 3.\<close>

theorem hello_document_counts_counterexample:
  "map_option info (validate hello_document) = Some \<lparr>characterCount = 12, tagCount = 4\<rparr>
   \<and> map_option info (validate hello_document) \<noteq> Some \<lparr>characterCount = 13, tagCount = 3\<rparr>"
  by (simp add: validate_hello_document)

section \<open>Text without markup\<close>

lemma plain_xml_exec: "CHR ''<'' \<notin> set s \<Longrightarrow> xml_exec s = None"
  by (induction s) (auto simp: xml_tag_at_def)

lemma plain_ssml_exec: "CHR ''<'' \<notin> set s \<Longrightarrow> ssml_exec s = None"
  by (induction s) (auto simp: ssml_tag_at_def)

lemma plain_xml_tokens: "CHR ''<'' \<notin> set s \<Longrightarrow> xml_tokens s = []"
  by (subst xml_tokens.simps) (simp add: plain_xml_exec)

lemma plain_ssml_tokens: "CHR ''<'' \<notin> set s \<Longrightarrow> ssml_tokens s = []"
  by (subst ssml_tokens.simps) (simp add: plain_ssml_exec)

lemma plain_count_matches: "CHR ''<'' \<notin> set s \<Longrightarrow> count_matches (CHR ''<'' # lit) s = 0"
  by (induction s) (auto simp: startsWith_def)

lemma plain_remove_matches: "CHR ''<'' \<notin> set s \<Longrightarrow> remove_matches (CHR ''<'' # lit) s = s"
  by (induction s) (auto simp: startsWith_def)

lemma plain_split_matches:
  "CHR ''<'' \<notin> set s \<Longrightarrow> split_matches (CHR ''<'' # lit) cur s = [cur @ s]"
  by (induction s arbitrary: cur) (auto simp: startsWith_def)

lemma plain_count_literal: "CHR ''<'' \<notin> set s \<Longrightarrow> count_literal (CHR ''<'' # lit) s = 0"
  by (induction s) (auto simp: startsWith_def)

lemma plain_includes: "CHR ''<'' \<notin> set s \<Longrightarrow> \<not> includes_str s ''><''"
proof (induction s)
  case Nil
  then show ?case by simp
next
  case (Cons c cs)
  have "\<not> startsWith (c # cs) ''><''"
  proof
    assume "startsWith (c # cs) ''><''"
    then have "take 1 cs = ''<''" by (simp add: startsWith_def)
    then have "CHR ''<'' \<in> set (take 1 cs)" by simp
    then have "CHR ''<'' \<in> set cs" by (rule in_set_takeD)
    with Cons.prems show False by simp
  qed
  with Cons show ?case by simp
qed

lemma set_trim: "set (trim s) \<subseteq> set s"
  by (auto simp: trim_def dest!: set_dropWhileD)

lemma startsWith_lt: "startsWith t (CHR ''<'' # lit) \<Longrightarrow> CHR ''<'' \<in> set t"
  by (cases t) (auto simp: startsWith_def)

lemma endsWith_lt: "endsWith t (CHR ''<'' # lit) \<Longrightarrow> CHR ''<'' \<in> set t"
proof -
  assume "endsWith t (CHR ''<'' # lit)"
  then have "CHR ''<'' \<in> set (drop (length t - length (CHR ''<'' # lit)) t)"
    by (simp add: endsWith_def)
  then show ?thesis by (rule in_set_dropD)
qed

lemma plain_basic_errors:
  assumes "CHR ''<'' \<notin> set s"
  shows "basic_errors s = [''SSML must start with <speak> tag'', ''SSML must end with </speak> tag'']"
proof -
  from assms set_trim [of s] have t: "CHR ''<'' \<notin> set (trim s)" by blast
  then have "\<not> startsWith (trim s) ''<speak''" "\<not> endsWith (trim s) ''</speak>''"
    using startsWith_lt endsWith_lt by blast+
  with assms show ?thesis
    by (simp add: basic_errors_def plain_count_matches plain_count_literal)
qed

lemma plain_validate:
  assumes "CHR ''<'' \<notin> set s"
  shows "validate s =
     Some \<lparr>valid = False,
           errors = [''SSML must start with <speak> tag'', ''SSML must end with </speak> tag''],
           warnings = (if length s > 500 then [long_segment_warning] else []),
           info = \<lparr>characterCount = length s, tagCount = 0\<rparr>\<rparr>"
  using assms
  by (simp add: validate_eq all_errors_def all_warnings_def plain_basic_errors xml_errors_def
      xml_classified_def plain_xml_tokens schema_errors_def schema_warnings_def
      plain_ssml_tokens common_warnings_def max_nesting_def plain_split_matches
      has_long_segment_def plain_remove_matches plain_count_matches plain_includes)

section \<open>The call returns\<close>

text \<open>
  C5: \<open>validate\<close> returns a report for every string, because each of its five loops
  ends; text without any \<open><\<close>, the empty string included, gets the report with the two
  errors of the missing root tags.
\<close>

theorem validate_total:
  "(\<exists>st'. xml_loop s st = Some st')
   \<and> (\<exists>found. found_loop s foundAttrs = Some found)
   \<and> (\<exists>r. attr_loop table tagName s result = Some r)
   \<and> (\<exists>r. ssml_loop s result = Some r)
   \<and> (\<exists>depths'. nesting_loop s depths = Some depths')
   \<and> (\<exists>r. validate s = Some r)
   \<and> (CHR ''<'' \<notin> set s \<longrightarrow>
        validate s =
          Some \<lparr>valid = False,
                errors = [''SSML must start with <speak> tag'',
                          ''SSML must end with </speak> tag''],
                warnings = (if length s > 500 then [long_segment_warning] else []),
                info = \<lparr>characterCount = length s, tagCount = 0\<rparr>\<rparr>)"
proof (intro conjI impI)
  show "\<exists>st'. xml_loop s st = Some st'" by (simp add: xml_loop_fold)
  show "\<exists>found. found_loop s foundAttrs = Some found" by (simp add: found_loop_fold)
  show "\<exists>r. attr_loop table tagName s result = Some r" by (simp add: attr_loop_fold)
  show "\<exists>r. ssml_loop s result = Some r" by (simp add: ssml_loop_emit)
  show "\<exists>depths'. nesting_loop s depths = Some depths'" by (simp add: nesting_loop_fold)
  show "\<exists>r. validate s = Some r" by (simp add: validate_eq)
  assume "CHR ''<'' \<notin> set s"
  then show "validate s =
      Some \<lparr>valid = False,
            errors = [''SSML must start with <speak> tag'',
                      ''SSML must end with </speak> tag''],
            warnings = (if length s > 500 then [long_segment_warning] else []),
            info = \<lparr>characterCount = length s, tagCount = 0\<rparr>\<rparr>"
    by (rule plain_validate)
qed

theorem validate_total_witness:
  "CHR ''<'' \<notin> set ''just text''
   \<and> validate ''just text'' =
       Some \<lparr>valid = False,
             errors = [''SSML must start with <speak> tag'',
                       ''SSML must end with </speak> tag''],
             warnings = [],
             info = \<lparr>characterCount = 9, tagCount = 0\<rparr>\<rparr>
   \<and> validate [] =
       Some \<lparr>valid = False,
             errors = [''SSML must start with <speak> tag'',
                       ''SSML must end with </speak> tag''],
             warnings = [],
             info = \<lparr>characterCount = 0, tagCount = 0\<rparr>\<rparr>"
  using validate_total [of "''just text''"] validate_total [of "[]"]
  by simp

section \<open>The flag of the report\<close>

text \<open>
  C1: the passes leave \<open>valid\<close> as it was set at the start, whatever they find; the
  report returned is the report of the passes with \<open>valid\<close> set to whether its error
  list is empty, so \<open>valid\<close> holds iff there is no error, whatever the warnings.
\<close>

theorem valid_iff_no_errors:
  "\<exists>p r. run_passes ssml initial_report = Some p \<and> valid p
     \<and> validate ssml = Some r
     \<and> r = p\<lparr>valid := (errors p = [])\<rparr>
     \<and> (valid r \<longleftrightarrow> errors r = [])"
  by (simp add: validate_def run_passes_emit emit_def calculateMetrics_def initial_report_def)

theorem valid_iff_no_errors_witness:
  "\<exists>p r. run_passes speaker_document initial_report = Some p \<and> valid p
     \<and> validate speaker_document = Some r
     \<and> r = p\<lparr>valid := (errors p = [])\<rparr>
     \<and> (valid r \<longleftrightarrow> errors r = [])"
  by (rule valid_iff_no_errors)

section \<open>Which pass a message comes from\<close>

lemma start_message_basic:
  "start_message \<in> set (basic_errors ssml) \<longleftrightarrow> \<not> startsWith (trim ssml) ''<speak''"
  by (simp add: basic_errors_def start_message_def)

lemma start_message_wellformed: "start_message \<notin> set (wellformed ts opened)"
  by (induction ts opened rule: wellformed.induct)
     (simp_all add: start_message_def unclosed_message_def)

lemma start_message_tag: "start_message \<notin> set (tag_errors tok)"
proof -
  obtain fullTag tagName attributes where "tok = (fullTag, tagName, attributes)"
    by (cases tok) auto
  then show ?thesis
    by (auto simp: tag_errors_def required_errors_def missing_errors_def value_errors_def
        value_error_def start_message_def missing_attribute_message_def
        invalid_value_message_def split: option.splits if_splits)
qed

lemma start_message_schema: "start_message \<notin> set (schema_errors ssml)"
  by (simp add: schema_errors_def start_message_tag)

lemma start_message_all:
  "start_message \<in> set (all_errors ssml) \<longleftrightarrow> \<not> startsWith (trim ssml) ''<speak''"
  by (simp add: all_errors_def start_message_basic start_message_schema xml_errors_def
      start_message_wellformed)

lemma startsWith_append: "startsWith s (p @ q) \<Longrightarrow> startsWith s p"
  by (auto simp: startsWith_def take_eq_Nil dest: arg_cong [where f = "take (length p)"])

lemma validate_speaker_document:
  "validate speaker_document =
     Some \<lparr>valid = False,
           errors = [''Mismatched tags: expected </speaker>, found </speak>''],
           warnings = [''Unsupported tag: <speaker>''],
           info = \<lparr>characterCount = 1, tagCount = 2\<rparr>\<rparr>"
  by code_simp

text \<open>
  C10: the error that the document must start with \<open><speak>\<close> is in the report iff the
  trimmed document does not begin with the six characters \<open><speak\<close>; so a document
  whose first tag has a longer name that begins with \<open>speak\<close>, such as \<open><speaker>\<close>,
  does not get this error.
\<close>

theorem start_error_is_prefix_test:
  "\<exists>r. validate ssml = Some r
     \<and> (start_message \<in> set (errors r) \<longleftrightarrow> \<not> startsWith (trim ssml) ''<speak'')
     \<and> (startsWith (trim ssml) (''<speak'' @ more_name) \<longrightarrow> start_message \<notin> set (errors r))"
  using startsWith_append [of "trim ssml" "''<speak''" more_name]
  by (auto simp: validate_eq start_message_all)

theorem start_error_is_prefix_test_witness:
  "startsWith (trim speaker_document) (''<speak'' @ ''er>'')
   \<and> (\<exists>r. validate speaker_document = Some r \<and> start_message \<notin> set (errors r)
          \<and> errors r = [''Mismatched tags: expected </speaker>, found </speak>''])"
proof -
  have h: "startsWith (trim speaker_document) (''<speak'' @ ''er>'')" by code_simp
  from start_error_is_prefix_test [of speaker_document "''er>''"] h
  show ?thesis by (auto simp: validate_speaker_document)
qed

section \<open>The passes do not stop one another\<close>

lemma validate_unterminated_document:
  "validate unterminated_document =
     Some \<lparr>valid = False,
           errors = [''SSML must end with </speak> tag'', ''Unbalanced <speak> tags'',
                     ''Unclosed tags: <speak>''],
           warnings = [],
           info = \<lparr>characterCount = 12, tagCount = 1\<rparr>\<rparr>"
  by code_simp

lemma basic_unterminated_document:
  "errors (validateBasicStructure unterminated_document initial_report)
   = [''SSML must end with </speak> tag'', ''Unbalanced <speak> tags'']"
  by code_simp

lemma xml_unterminated_document:
  "map_option errors (validateXMLStructure unterminated_document initial_report)
   = Some [''Unclosed tags: <speak>'']"
  by code_simp

text \<open>
  C8: every pass returns on its own, and the report of \<open>validate\<close> has the errors of the
  root-structure pass, then those of the well-formedness pass, then those of the schema
  pass, each as the pass emits them on a fresh report; likewise the warnings and the
  counts. For \<open><speak>unterminated\<close> the report is invalid with the error of the missing
  closing root tag from the first pass and the error of the unclosed \<open>speak\<close> from the
  second.
\<close>

theorem passes_accumulate:
  "(\<exists>r2 r3 r5 r.
      validateXMLStructure ssml initial_report = Some r2
      \<and> validateSSMLTags ssml initial_report = Some r3
      \<and> checkCommonIssues ssml initial_report = Some r5
      \<and> validate ssml = Some r
      \<and> errors r = errors (validateBasicStructure ssml initial_report) @ errors r2 @ errors r3
      \<and> warnings r = warnings r3 @ warnings r5
      \<and> info r = info (calculateMetrics ssml initial_report))
   \<and> (\<exists>u. validate unterminated_document = Some u \<and> \<not> valid u
          \<and> ''SSML must end with </speak> tag''
              \<in> set (errors (validateBasicStructure unterminated_document initial_report))
          \<and> map_option errors (validateXMLStructure unterminated_document initial_report)
              = Some [''Unclosed tags: <speak>'']
          \<and> ''SSML must end with </speak> tag'' \<in> set (errors u)
          \<and> ''Unclosed tags: <speak>'' \<in> set (errors u))"
proof
  show "\<exists>r2 r3 r5 r.
      validateXMLStructure ssml initial_report = Some r2
      \<and> validateSSMLTags ssml initial_report = Some r3
      \<and> checkCommonIssues ssml initial_report = Some r5
      \<and> validate ssml = Some r
      \<and> errors r = errors (validateBasicStructure ssml initial_report) @ errors r2 @ errors r3
      \<and> warnings r = warnings r3 @ warnings r5
      \<and> info r = info (calculateMetrics ssml initial_report)"
    by (simp add: validateXMLStructure_emit validateSSMLTags_emit checkCommonIssues_emit
        validateBasicStructure_emit validate_eq emit_fields all_errors_def all_warnings_def
        initial_report_def calculateMetrics_def)
next
  show "\<exists>u. validate unterminated_document = Some u \<and> \<not> valid u
          \<and> ''SSML must end with </speak> tag''
              \<in> set (errors (validateBasicStructure unterminated_document initial_report))
          \<and> map_option errors (validateXMLStructure unterminated_document initial_report)
              = Some [''Unclosed tags: <speak>'']
          \<and> ''SSML must end with </speak> tag'' \<in> set (errors u)
          \<and> ''Unclosed tags: <speak>'' \<in> set (errors u)"
    by (simp add: validate_unterminated_document basic_unterminated_document
        xml_unterminated_document)
qed

theorem passes_accumulate_witness:
  "\<exists>r2 r3 r5 r.
      validateXMLStructure mismatched_document initial_report = Some r2
      \<and> validateSSMLTags mismatched_document initial_report = Some r3
      \<and> checkCommonIssues mismatched_document initial_report = Some r5
      \<and> validate mismatched_document = Some r
      \<and> errors r = errors (validateBasicStructure mismatched_document initial_report)
                     @ errors r2 @ errors r3
      \<and> warnings r = warnings r3 @ warnings r5
      \<and> info r = info (calculateMetrics mismatched_document initial_report)"
  using passes_accumulate [of mismatched_document] by (rule conjunct1)

section \<open>The well-formedness pass and its stack\<close>

lemma emit_errors_only: "emit es [] result = result\<lparr>errors := errors result @ es\<rparr>"
  by (simp add: emit_def)

text \<open>
  C3, as the code has it. The pass reads the matches of the tag expression from left to
  right. A match that contains \<open>/>\<close> and does not begin with \<open></\<close> is self-closing, one
  that begins with \<open></\<close> is closing, any other is opening. \<open>wellformed\<close> is the procedure
  of the claim on these tokens, with the open names as a stack: an opening token pushes
  its name, a self-closing one changes nothing, a closing one on the empty stack gives
  the error of the unexpected closing tag and the reading goes on, a closing one
  otherwise pops the top and gives the error of the mismatch when the names differ, and
  at the end a stack that is not empty gives one error with the open names in the order
  of their pushes. The two errors of a closing token quote the token as it stands in
  the document, not \<open></name>\<close>. The errors the pass adds to the report are those of
  \<open>wellformed\<close> from the empty stack.
\<close>

theorem wellformedness_pass:
  "validateXMLStructure ssml result
   = Some (result\<lparr>errors := errors result @ wellformed (xml_classified ssml) []\<rparr>)"
  by (simp add: validateXMLStructure_emit xml_errors_def emit_errors_only)

theorem wellformedness_pass_witness:
  "validateXMLStructure stack_document initial_report
   = Some (initial_report\<lparr>errors :=
        [''Unexpected closing tag: </x>'', ''Mismatched tags: expected </d>, found </c>'',
         ''Unclosed tags: <a>, <c>'']\<rparr>)"
proof -
  have "wellformed (xml_classified stack_document) []
      = [''Unexpected closing tag: </x>'', ''Mismatched tags: expected </d>, found </c>'',
         ''Unclosed tags: <a>, <c>'']"
    by code_simp
  with wellformedness_pass [of stack_document initial_report] show ?thesis
    by (simp add: initial_report_def)
qed

text \<open>
  C3, as stated, fails on \<open><a></b >\<close>: its tokens are the opening \<open><a>\<close> and the closing
  \<open></b >\<close> of name \<open>b\<close>, and the error quotes \<open></b >\<close>, not \<open></b>\<close>.
\<close>

theorem mismatched_message_counterexample:
  "map_option errors (validateXMLStructure mismatched_document initial_report)
     = Some [''Mismatched tags: expected </a>, found </b >'']
   \<and> map_option errors (validateXMLStructure mismatched_document initial_report)
     \<noteq> Some [''Mismatched tags: expected </a>, found </b>'']"
  by code_simp

section \<open>Tags the schema does not know\<close>

lemma ssml_tag_at_not_closing:
  assumes "ssml_tag_at s = Some (fullTag, tagName, attributes, rest)"
  shows "\<not> startsWith fullTag ''</''"
proof (cases s)
  case Nil
  with assms show ?thesis by (simp add: ssml_tag_at_def)
next
  case (Cons c t)
  from assms Cons have name: "tagName = takeWhile is_name_char t" "tagName \<noteq> []"
    and full: "fullTag = ''<'' @ tagName @ takeWhile not_gt (dropWhile is_name_char t) @ ''>''"
    by (auto simp: ssml_tag_at_def Let_def split: if_splits)
  from name have "hd tagName \<in> set (takeWhile is_name_char t)" by simp
  then have "is_name_char (hd tagName)" by (rule set_takeWhileD [THEN conjunct2])
  moreover have "\<not> is_name_char CHR ''/''"
    by (simp add: is_name_char_def is_alpha_def code_unit_def)
  ultimately have "hd tagName \<noteq> CHR ''/''" by auto
  with name(2) full show ?thesis
    by (cases tagName) (auto simp: startsWith_def)
qed

lemma ssml_exec_not_closing:
  "ssml_exec s = Some (fullTag, tagName, attributes, rest) \<Longrightarrow> \<not> startsWith fullTag ''</''"
  by (induction s) (auto split: option.splits dest: ssml_tag_at_not_closing)

lemma ssml_tokens_not_closing:
  "(fullTag, tagName, attributes) \<in> set (ssml_tokens s) \<Longrightarrow> \<not> startsWith fullTag ''</''"
proof (induction s rule: ssml_tokens.induct)
  case (1 s)
  show ?case
  proof (cases "ssml_exec s")
    case None
    with "1.prems" show ?thesis by (subst (asm) ssml_tokens.simps) simp
  next
    case (Some m)
    obtain f n a rest where m: "m = (f, n, a, rest)" by (cases m) auto
    from "1.prems" Some m
    have "(fullTag, tagName, attributes) = (f, n, a)
          \<or> (fullTag, tagName, attributes) \<in> set (ssml_tokens rest)"
      by (subst (asm) ssml_tokens.simps) simp
    then show ?thesis
    proof
      assume "(fullTag, tagName, attributes) = (f, n, a)"
      with Some m ssml_exec_not_closing [of s f n a rest] show ?thesis by simp
    next
      assume "(fullTag, tagName, attributes) \<in> set (ssml_tokens rest)"
      with "1.IH" [OF Some [unfolded m] refl refl refl] show ?thesis by simp
    qed
  qed
qed

lemma warnings_of_opening_tokens:
  "\<forall>tok\<in>set toks. \<not> startsWith (fst tok) ''</'' \<Longrightarrow>
   concat (map tag_warnings toks)
   = map unsupported_message (filter (\<lambda>tok. \<not> supported tok) toks)"
  by (induction toks)
     (auto simp: tag_warnings_def supported_def unsupported_message_def)

lemma errors_of_supported_tokens:
  "concat (map tag_errors toks) = concat (map tag_errors (filter supported toks))"
  by (induction toks) (auto simp: tag_errors_def supported_def)

lemma schema_warnings_eq:
  "schema_warnings ssml
   = map unsupported_message (filter (\<lambda>tok. \<not> supported tok) (ssml_tokens ssml))"
  unfolding schema_warnings_def
  by (rule warnings_of_opening_tokens) (auto dest: ssml_tokens_not_closing)

lemma validate_badtag_document:
  "validate badtag_document =
     Some \<lparr>valid = True, errors = [],
           warnings = [''Unsupported tag: <badtag>'',
                       ''Empty tags detected - consider removing or adding content''],
           info = \<lparr>characterCount = 1, tagCount = 4\<rparr>\<rparr>"
  by code_simp

text \<open>
  C4: a match of the schema pass whose name is not a supported tag adds the warning of
  the unsupported tag and nothing else. So the pass adds one such warning for each of
  these matches, in their order, and its errors are the errors of the matches with a
  supported name alone. The document with \<open>badtag\<close> is valid and has the warning.
\<close>

theorem unsupported_tag_warns:
  "(ssml_tag_at s = Some (fullTag, tagName, attributes, rest) \<longrightarrow>
      tagName \<notin> set supportedTags \<longrightarrow>
      ssml_token fullTag tagName attributes result
      = Some (result\<lparr>warnings := warnings result @ [''Unsupported tag: <'' @ tagName @ ''>'']\<rparr>))
   \<and> (\<exists>r. validateSSMLTags ssml result = Some r
          \<and> warnings r = warnings result
               @ map unsupported_message (filter (\<lambda>tok. \<not> supported tok) (ssml_tokens ssml))
          \<and> errors r = errors result
               @ concat (map tag_errors (filter supported (ssml_tokens ssml))))
   \<and> (\<exists>r. validate badtag_document = Some r \<and> valid r \<and> errors r = []
          \<and> ''Unsupported tag: <badtag>'' \<in> set (warnings r))"
proof (intro conjI impI)
  assume "ssml_tag_at s = Some (fullTag, tagName, attributes, rest)"
    and "tagName \<notin> set supportedTags"
  then show "ssml_token fullTag tagName attributes result
      = Some (result\<lparr>warnings := warnings result @ [''Unsupported tag: <'' @ tagName @ ''>'']\<rparr>)"
    by (simp add: ssml_token_def ssml_tag_at_not_closing push_warning_def)
next
  show "\<exists>r. validateSSMLTags ssml result = Some r
          \<and> warnings r = warnings result
               @ map unsupported_message (filter (\<lambda>tok. \<not> supported tok) (ssml_tokens ssml))
          \<and> errors r = errors result
               @ concat (map tag_errors (filter supported (ssml_tokens ssml)))"
    using errors_of_supported_tokens [of "ssml_tokens ssml"]
    by (simp add: validateSSMLTags_emit emit_fields schema_warnings_eq schema_errors_def)
next
  show "\<exists>r. validate badtag_document = Some r \<and> valid r \<and> errors r = []
          \<and> ''Unsupported tag: <badtag>'' \<in> set (warnings r)"
    by (simp add: validate_badtag_document)
qed

theorem unsupported_tag_warns_witness:
  "ssml_tag_at ''<badtag>x'' = Some (''<badtag>'', ''badtag'', [], ''x'')
   \<and> ''badtag'' \<notin> set supportedTags
   \<and> ssml_token ''<badtag>'' ''badtag'' [] initial_report
     = Some (initial_report\<lparr>warnings := [''Unsupported tag: <badtag>'']\<rparr>)"
proof -
  have h: "ssml_tag_at ''<badtag>x'' = Some (''<badtag>'', ''badtag'', [], ''x'')"
    by code_simp
  have n: "''badtag'' \<notin> set supportedTags" by code_simp
  from unsupported_tag_warns [of "''<badtag>x''" "''<badtag>''" "''badtag''" "[]" "''x''"
      initial_report] h n
  show ?thesis by (simp add: initial_report_def)
qed

section \<open>Required attributes\<close>

lemma includes_before_gt:
  "CHR ''>'' \<notin> set w \<Longrightarrow> includes_str (w @ ''>'') ''/>'' \<longleftrightarrow> endsWith (w @ ''>'') ''/>''"
proof (induction w)
  case Nil
  then show ?case by (simp add: startsWith_def endsWith_def)
next
  case (Cons c w)
  show ?case
  proof (cases w)
    case Nil
    then show ?thesis by (auto simp: startsWith_def endsWith_def)
  next
    case (Cons d w')
    with Cons.prems have "d \<noteq> CHR ''>''" by auto
    with Cons have "\<not> startsWith (c # w @ ''>'') ''/>''" by (simp add: startsWith_def)
    moreover from Cons have "endsWith (c # w @ ''>'') ''/>'' \<longleftrightarrow> endsWith (w @ ''>'') ''/>''"
      by (simp add: endsWith_def)
    ultimately show ?thesis using Cons.IH Cons.prems by simp
  qed
qed

lemma name_chars_no_gt: "is_name_char c \<Longrightarrow> c \<noteq> CHR ''>''"
  by (auto simp: is_name_char_def is_alpha_def code_unit_def)

lemma ssml_tag_at_shape:
  assumes "ssml_tag_at s = Some (fullTag, tagName, attributes, rest)"
  shows "fullTag = ''<'' @ tagName @ attributes @ ''>'' \<and> CHR ''>'' \<notin> set (''<'' @ tagName @ attributes)"
proof (cases s)
  case Nil
  with assms show ?thesis by (simp add: ssml_tag_at_def)
next
  case (Cons c t)
  from assms Cons have name: "tagName = takeWhile is_name_char t"
    and attrs: "attributes = takeWhile not_gt (dropWhile is_name_char t)"
    and full: "fullTag = ''<'' @ tagName @ attributes @ ''>''"
    by (auto simp: ssml_tag_at_def Let_def split: if_splits)
  have "CHR ''>'' \<notin> set tagName"
    unfolding name using name_chars_no_gt by (auto dest: set_takeWhileD)
  moreover have "CHR ''>'' \<notin> set attributes"
    unfolding attrs by (auto dest: set_takeWhileD simp: not_gt_def)
  ultimately show ?thesis using full by simp
qed

lemma ssml_tag_at_self_closing:
  assumes "ssml_tag_at s = Some (fullTag, tagName, attributes, rest)"
  shows "includes_str fullTag ''/>'' \<longleftrightarrow> endsWith fullTag ''/>''"
proof -
  from ssml_tag_at_shape [OF assms]
  have "fullTag = (''<'' @ tagName @ attributes) @ ''>''"
    and "CHR ''>'' \<notin> set (''<'' @ tagName @ attributes)" by simp_all
  then show ?thesis using includes_before_gt [of "''<'' @ tagName @ attributes"] by simp
qed


lemma ssml_tokens_member_errors:
  "tok \<in> set (ssml_tokens ssml) \<Longrightarrow> e \<in> set (tag_errors tok) \<Longrightarrow> e \<in> set (all_errors ssml)"
  by (auto simp: all_errors_def schema_errors_def)

lemma validate_phoneme_document:
  "validate phoneme_document =
     Some \<lparr>valid = False,
           errors = [missing_attribute_message ''ph'' ''phoneme''],
           warnings = [''Empty tags detected - consider removing or adding content''],
           info = \<lparr>characterCount = 1, tagCount = 5\<rparr>\<rparr>"
  by code_simp

text \<open>
  C6: a match of the schema pass contains \<open>/>\<close> iff it ends with it, that is, iff it is
  self-closing. For a match with a supported name that has required attributes,
  the errors the loop body adds are, when the match does not contain \<open>/>\<close>, one error of
  the missing required attribute for each required name that is not among the names of
  the \<open>name="value"\<close> pairs of the attribute text, in the order of the table, followed by
  the errors of the attribute values; when the match contains \<open>/>\<close>, the errors of the
  attribute values alone. Each of these errors of a match of the document is in the
  report of \<open>validate\<close>.
\<close>

theorem required_attributes_checked:
  assumes "ssml_tag_at s = Some (fullTag, tagName, attributes, rest)"
    and "tagName \<in> set supportedTags"
    and "map_of requiredAttributes tagName = Some required"
  shows "(includes_str fullTag ''/>'' \<longleftrightarrow> endsWith fullTag ''/>'')
   \<and> (\<exists>r. ssml_token fullTag tagName attributes result = Some r
     \<and> warnings r = warnings result
     \<and> errors r = errors result
         @ (if includes_str fullTag ''/>'' then []
            else map (\<lambda>requiredAttr. missing_attribute_message requiredAttr tagName)
                   (filter (\<lambda>requiredAttr. requiredAttr \<notin> fst ` set (attr_tokens attributes))
                      required))
         @ value_errors tagName attributes)
   \<and> ((fullTag, tagName, attributes) \<in> set (ssml_tokens ssml) \<longrightarrow>
         \<not> includes_str fullTag ''/>'' \<longrightarrow>
         requiredAttr \<in> set required \<longrightarrow>
         requiredAttr \<notin> fst ` set (attr_tokens attributes) \<longrightarrow>
         (\<exists>r. validate ssml = Some r \<and> \<not> valid r
             \<and> missing_attribute_message requiredAttr tagName \<in> set (errors r)))"
proof (intro conjI impI)
  from assms(1) show "includes_str fullTag ''/>'' \<longleftrightarrow> endsWith fullTag ''/>''"
    by (rule ssml_tag_at_self_closing)
  from assms(1) have open_tag: "\<not> startsWith fullTag ''</''"
    by (rule ssml_tag_at_not_closing)
  with assms(2,3)
  have te: "tag_errors (fullTag, tagName, attributes)
      = (if includes_str fullTag ''/>'' then []
         else map (\<lambda>requiredAttr. missing_attribute_message requiredAttr tagName)
                (filter (\<lambda>requiredAttr. requiredAttr \<notin> fst ` set (attr_tokens attributes))
                   required))
        @ value_errors tagName attributes"
    by (simp add: tag_errors_def required_errors_def missing_errors_def)
  from open_tag assms(2) have tw: "tag_warnings (fullTag, tagName, attributes) = []"
    by (simp add: tag_warnings_def)
  show "\<exists>r. ssml_token fullTag tagName attributes result = Some r
     \<and> warnings r = warnings result
     \<and> errors r = errors result
         @ (if includes_str fullTag ''/>'' then []
            else map (\<lambda>requiredAttr. missing_attribute_message requiredAttr tagName)
                   (filter (\<lambda>requiredAttr. requiredAttr \<notin> fst ` set (attr_tokens attributes))
                      required))
         @ value_errors tagName attributes"
    by (simp add: ssml_token_emit te tw emit_fields)
  assume tok: "(fullTag, tagName, attributes) \<in> set (ssml_tokens ssml)"
    and "\<not> includes_str fullTag ''/>''" "requiredAttr \<in> set required"
    "requiredAttr \<notin> fst ` set (attr_tokens attributes)"
  then have "missing_attribute_message requiredAttr tagName
      \<in> set (tag_errors (fullTag, tagName, attributes))"
    by (simp add: te)
  with tok have "missing_attribute_message requiredAttr tagName \<in> set (all_errors ssml)"
    by (rule ssml_tokens_member_errors)
  then show "\<exists>r. validate ssml = Some r \<and> \<not> valid r
      \<and> missing_attribute_message requiredAttr tagName \<in> set (errors r)"
    by (auto simp: validate_eq)
qed

theorem required_attributes_checked_witness:
  "ssml_tag_at (''<phoneme alphabet='' @ quoted ''ipa'' @ ''>x'')
     = Some (''<phoneme alphabet='' @ quoted ''ipa'' @ ''>'', ''phoneme'',
             '' alphabet='' @ quoted ''ipa'', ''x'')
   \<and> ''phoneme'' \<in> set supportedTags
   \<and> map_of requiredAttributes ''phoneme'' = Some [''alphabet'', ''ph'']
   \<and> (\<exists>r. ssml_token (''<phoneme alphabet='' @ quoted ''ipa'' @ ''>'') ''phoneme''
            ('' alphabet='' @ quoted ''ipa'') initial_report = Some r
          \<and> errors r = [missing_attribute_message ''ph'' ''phoneme''])
   \<and> ssml_tag_at ''<phoneme/>'' = Some (''<phoneme/>'', ''phoneme'', ''/'', [])
   \<and> (\<exists>r. ssml_token ''<phoneme/>'' ''phoneme'' ''/'' initial_report = Some r
          \<and> errors r = [])"
proof -
  have h1: "ssml_tag_at (''<phoneme alphabet='' @ quoted ''ipa'' @ ''>x'')
     = Some (''<phoneme alphabet='' @ quoted ''ipa'' @ ''>'', ''phoneme'',
             '' alphabet='' @ quoted ''ipa'', ''x'')"
    by code_simp
  have h2: "''phoneme'' \<in> set supportedTags" by code_simp
  have h3: "map_of requiredAttributes ''phoneme'' = Some [''alphabet'', ''ph'']" by code_simp
  have h4: "ssml_tag_at ''<phoneme/>'' = Some (''<phoneme/>'', ''phoneme'', ''/'', [])"
    by code_simp
  have e1: "attr_tokens ('' alphabet='' @ quoted ''ipa'') = [(''alphabet'', ''ipa'')]"
    by code_simp
  have e2: "value_errors ''phoneme'' ('' alphabet='' @ quoted ''ipa'') = []" by code_simp
  have e3: "value_errors ''phoneme'' ''/'' = []" by code_simp
  have e4: "\<not> includes_str (''<phoneme alphabet='' @ quoted ''ipa'' @ ''>'') ''/>''"
    by code_simp
  have e5: "includes_str ''<phoneme/>'' ''/>''" by code_simp
  from required_attributes_checked [OF h1 h2 h3, of initial_report, THEN conjunct2, THEN conjunct1]
  have a: "\<exists>r. ssml_token (''<phoneme alphabet='' @ quoted ''ipa'' @ ''>'') ''phoneme''
            ('' alphabet='' @ quoted ''ipa'') initial_report = Some r
          \<and> errors r = [missing_attribute_message ''ph'' ''phoneme'']"
    by (simp only: e1 e2 e4) (auto simp: initial_report_def)
  from required_attributes_checked [OF h4 h2 h3, of initial_report, THEN conjunct2, THEN conjunct1]
  have b: "\<exists>r. ssml_token ''<phoneme/>'' ''phoneme'' ''/'' initial_report = Some r
          \<and> errors r = []"
    by (simp only: e3 e5) (auto simp: initial_report_def)
  from h1 h2 h3 h4 a b show ?thesis by blast
qed

section \<open>Attribute values\<close>

lemma accepts_satisfies: "accepts alt attrValue \<longleftrightarrow> satisfies attrValue alt"
  by (cases alt) (auto simp: test_lang)

lemma is_valid_accepted: "is_valid validValues attrValue \<longleftrightarrow> accepted validValues attrValue"
  by (cases validValues) (auto simp: accepted_def list_ex_iff accepts_satisfies test_lang)

lemma lookup_values_own: "map_of table attrName = Some c \<Longrightarrow> lookup_values table attrName = Some c"
  by (simp add: lookup_values_def)

lemma value_error_member:
  "attr \<in> set (attr_tokens attributes) \<Longrightarrow>
   map_of validAttributeValues tagName = Some table \<Longrightarrow>
   e \<in> set (value_error table tagName attr) \<Longrightarrow>
   e \<in> set (value_errors tagName attributes)"
  by (auto simp: value_errors_def)

lemma validate_break_document:
  "validate break_document =
     Some \<lparr>valid = False,
           errors = [invalid_value_message ''invalid-value'' ''strength'' ''break''],
           warnings = [''Empty tags detected - consider removing or adding content''],
           info = \<lparr>characterCount = 0, tagCount = 3\<rparr>\<rparr>"
  by code_simp

text \<open>
  C7: for an attribute for which the schema has a constraint under the tag, the loop
  body of the value check leaves the report as it is when the value equals a literal of
  the constraint or belongs to the language of one of its patterns, and adds the error
  of the invalid value, with the value, the attribute and the tag, otherwise. When the
  attribute stands in a match of the schema pass with a supported name, the report of
  \<open>validate\<close> is invalid and has this error. The document with the break of strength
  \<open>invalid-value\<close> is invalid with this error for \<open>invalid-value\<close>, \<open>strength\<close> and
  \<open>break\<close>.
\<close>

theorem attribute_values_checked:
  assumes "map_of validAttributeValues tagName = Some table"
    and "map_of table attrName = Some constraint"
  shows "attr_token table tagName attrName attrValue result
       = (if accepted constraint attrValue then result
          else result\<lparr>errors := errors result
                 @ [invalid_value_message attrValue attrName tagName]\<rparr>)
   \<and> ((fullTag, tagName, attributes) \<in> set (ssml_tokens ssml) \<longrightarrow>
        tagName \<in> set supportedTags \<longrightarrow>
        (attrName, attrValue) \<in> set (attr_tokens attributes) \<longrightarrow>
        \<not> accepted constraint attrValue \<longrightarrow>
        (\<exists>r. validate ssml = Some r \<and> \<not> valid r
            \<and> invalid_value_message attrValue attrName tagName \<in> set (errors r)))
   \<and> (\<exists>r. validate break_document = Some r \<and> \<not> valid r
          \<and> invalid_value_message ''invalid-value'' ''strength'' ''break'' \<in> set (errors r))
   \<and> invalid_value_message ''invalid-value'' ''strength'' ''break''
       = ''Invalid value '' @ [CHR 0x27] @ ''invalid-value'' @ [CHR 0x27] @ '' for attribute ''
         @ [CHR 0x27] @ ''strength'' @ [CHR 0x27] @ '' in tag <break>''"
proof (intro conjI impI)
  from assms(2) have look: "lookup_values table attrName = Some constraint"
    by (rule lookup_values_own)
  then show "attr_token table tagName attrName attrValue result
       = (if accepted constraint attrValue then result
          else result\<lparr>errors := errors result
                 @ [invalid_value_message attrValue attrName tagName]\<rparr>)"
    by (simp add: attr_token_def is_valid_accepted push_error_def)
  show "\<exists>r. validate break_document = Some r \<and> \<not> valid r
          \<and> invalid_value_message ''invalid-value'' ''strength'' ''break'' \<in> set (errors r)"
    by (simp add: validate_break_document)
  show "invalid_value_message ''invalid-value'' ''strength'' ''break''
       = ''Invalid value '' @ [CHR 0x27] @ ''invalid-value'' @ [CHR 0x27] @ '' for attribute ''
         @ [CHR 0x27] @ ''strength'' @ [CHR 0x27] @ '' in tag <break>''"
    by (simp add: invalid_value_message_def)
  assume tok: "(fullTag, tagName, attributes) \<in> set (ssml_tokens ssml)"
    and sup: "tagName \<in> set supportedTags"
    and attr: "(attrName, attrValue) \<in> set (attr_tokens attributes)"
    and bad: "\<not> accepted constraint attrValue"
  from look bad have "invalid_value_message attrValue attrName tagName
      \<in> set (value_error table tagName (attrName, attrValue))"
    by (simp add: value_error_def is_valid_accepted)
  with attr assms(1) have "invalid_value_message attrValue attrName tagName
      \<in> set (value_errors tagName attributes)"
    by (rule value_error_member)
  moreover from tok have "\<not> startsWith fullTag ''</''" by (rule ssml_tokens_not_closing)
  ultimately have "invalid_value_message attrValue attrName tagName
      \<in> set (tag_errors (fullTag, tagName, attributes))"
    using sup by (simp add: tag_errors_def)
  with tok have "invalid_value_message attrValue attrName tagName \<in> set (all_errors ssml)"
    by (auto simp: all_errors_def schema_errors_def)
  then show "\<exists>r. validate ssml = Some r \<and> \<not> valid r
      \<and> invalid_value_message attrValue attrName tagName \<in> set (errors r)"
    by (auto simp: validate_eq)
qed

theorem attribute_values_checked_witness:
  "map_of validAttributeValues ''break'' = Some break_table
   \<and> map_of break_table ''time'' = Some (Pattern time_pattern)
   \<and> accepted (Pattern time_pattern) ''250ms''
   \<and> attr_token break_table ''break'' ''time'' ''250ms'' initial_report = initial_report
   \<and> \<not> accepted (Pattern time_pattern) ''soon''
   \<and> attr_token break_table ''break'' ''time'' ''soon'' initial_report
       = initial_report\<lparr>errors := [invalid_value_message ''soon'' ''time'' ''break'']\<rparr>"
proof -
  have h1: "map_of validAttributeValues ''break'' = Some break_table" by code_simp
  have h2: "map_of break_table ''time'' = Some (Pattern time_pattern)" by code_simp
  have "is_valid (Pattern time_pattern) ''250ms''" by code_simp
  then have a1: "accepted (Pattern time_pattern) ''250ms''" by (simp add: is_valid_accepted)
  have "\<not> is_valid (Pattern time_pattern) ''soon''" by code_simp
  then have a2: "\<not> accepted (Pattern time_pattern) ''soon''" by (simp add: is_valid_accepted)
  from attribute_values_checked [OF h1 h2, of "''250ms''" initial_report, THEN conjunct1] a1
  have t1: "attr_token break_table ''break'' ''time'' ''250ms'' initial_report = initial_report"
    by simp
  from attribute_values_checked [OF h1 h2, of "''soon''" initial_report, THEN conjunct1] a2
  have t2: "attr_token break_table ''break'' ''time'' ''soon'' initial_report
       = initial_report\<lparr>errors := [invalid_value_message ''soon'' ''time'' ''break'']\<rparr>"
    by (simp add: initial_report_def)
  from h1 h2 a1 a2 t1 t2 show ?thesis by blast
qed

section \<open>The depth of the nesting\<close>

lemma peak_nonneg: "0 \<le> peak ks"
  by (cases ks) simp_all

lemma peak_upper: "n \<le> length ks \<Longrightarrow> depth_after (take n ks) \<le> peak ks"
proof (induction ks arbitrary: n)
  case Nil
  then show ?case by (simp add: depth_after_def)
next
  case (Cons k ks)
  show ?case
  proof (cases n)
    case 0
    then show ?thesis by (simp add: depth_after_def)
  next
    case (Suc n')
    with Cons.prems have "n' \<le> length ks" by simp
    then have "depth_after (take n' ks) \<le> peak ks" by (rule Cons.IH)
    with Suc show ?thesis by (simp add: depth_after_def)
  qed
qed

lemma peak_attained: "\<exists>n\<le>length ks. depth_after (take n ks) = peak ks"
proof (induction ks)
  case Nil
  then show ?case by (simp add: depth_after_def)
next
  case (Cons k ks)
  then obtain n where n: "n \<le> length ks" "depth_after (take n ks) = peak ks" by blast
  show ?case
  proof (cases "0 \<le> depth_change k + peak ks")
    case True
    with n have "Suc n \<le> length (k # ks)"
      "depth_after (take (Suc n) (k # ks)) = peak (k # ks)"
      by (simp_all add: depth_after_def)
    then show ?thesis by blast
  next
    case False
    then have "0 \<le> length (k # ks)" "depth_after (take 0 (k # ks)) = peak (k # ks)"
      by (simp_all add: depth_after_def)
    then show ?thesis by blast
  qed
qed

lemma nesting_fold:
  "currentDepth \<le> maxDepth \<Longrightarrow>
   fold (\<lambda>(fullTag, tagName). nesting_token fullTag) toks (maxDepth, currentDepth)
   = (max maxDepth (currentDepth + peak (map nesting_kind toks)),
      currentDepth + depth_after (map nesting_kind toks))"
proof (induction toks arbitrary: maxDepth currentDepth)
  case Nil
  then show ?case by (simp add: depth_after_def)
next
  case (Cons tok toks)
  obtain fullTag tagName where tok: "tok = (fullTag, tagName)" by (cases tok)
  have p: "0 \<le> peak (map nesting_kind toks)" by (rule peak_nonneg)
  show ?case
  proof (cases "nesting_kind tok")
    case Opening
    with tok have step: "nesting_token fullTag (maxDepth, currentDepth)
        = (max maxDepth (currentDepth + 1), currentDepth + 1)"
      by (auto simp: nesting_kind_def nesting_token_def split: if_splits)
    have "currentDepth + 1 \<le> max maxDepth (currentDepth + 1)" by simp
    from Cons.IH [OF this] tok step Opening p show ?thesis
      by (simp add: depth_after_def max_def)
  next
    case Closing
    with tok have step: "nesting_token fullTag (maxDepth, currentDepth)
        = (maxDepth, currentDepth - 1)"
      by (auto simp: nesting_kind_def nesting_token_def split: if_splits)
    from Cons.prems have "currentDepth - 1 \<le> maxDepth" by simp
    from Cons.IH [OF this] tok step Closing p Cons.prems show ?thesis
      by (simp add: depth_after_def max_def)
  next
    case SelfClosing
    with tok have step: "nesting_token fullTag (maxDepth, currentDepth)
        = (maxDepth, currentDepth)"
      by (auto simp: nesting_kind_def nesting_token_def split: if_splits)
    from Cons.IH [OF Cons.prems] tok step SelfClosing p show ?thesis
      by (simp add: depth_after_def max_def)
  qed
qed

lemma max_nesting_peak: "max_nesting ssml = peak (map nesting_kind (xml_tokens ssml))"
  using peak_nonneg [of "map nesting_kind (xml_tokens ssml)"]
  by (simp add: max_nesting_def nesting_fold)

lemma deep_warning_schema: "deep_nesting_warning \<notin> set (schema_warnings ssml)"
  by (auto simp: schema_warnings_eq unsupported_message_def deep_nesting_warning_def)

lemma deep_warning_all:
  "deep_nesting_warning \<in> set (all_warnings ssml) \<longleftrightarrow> max_nesting ssml > 5"
  by (simp add: all_warnings_def deep_warning_schema common_warnings_def)
     (simp add: deep_nesting_warning_def long_segment_warning_def empty_tags_warning_def)

lemma name_char_facts:
  "\<not> is_name_char CHR ''>''" "\<not> is_name_char CHR ''/''" "\<not> is_name_char CHR ''<''"
  by (simp_all add: is_name_char_def is_alpha_def code_unit_def)

lemma tag_name_hd: "tag_name n \<Longrightarrow> \<exists>c cs. n = c # cs \<and> is_name_char c"
  by (cases n) (auto simp: tag_name_def list_all_iff)

lemma name_then_gt:
  assumes "tag_name n"
  shows "takeWhile is_name_char (n @ CHR ''>'' # rest) = n"
    and "dropWhile is_name_char (n @ CHR ''>'' # rest) = CHR ''>'' # rest"
  using assms
  by (simp_all add: tag_name_def list_all_iff takeWhile_append2 dropWhile_append2
      name_char_facts)

lemma xml_tag_at_open:
  assumes "tag_name n"
  shows "xml_tag_at (open_tag n @ rest) = Some (open_tag n, n, rest)"
proof -
  from tag_name_hd [OF assms] obtain c cs where n: "n = c # cs" "is_name_char c" by blast
  then have "c \<noteq> CHR ''/''" using name_char_facts by auto
  then have ns: "\<not> startsWith (n @ CHR ''>'' # rest) ''/''" using n by (simp add: startsWith_def)
  from assms have "n \<noteq> []" by (simp add: tag_name_def list_all_iff)
  with ns show ?thesis
    by (simp add: open_tag_def xml_tag_at_def name_then_gt [OF assms] not_gt_def)
qed

lemma xml_tag_at_close:
  assumes "tag_name n"
  shows "xml_tag_at (close_tag n @ rest) = Some (close_tag n, n, rest)"
proof -
  from assms have "n \<noteq> []" by (simp add: tag_name_def list_all_iff)
  then show ?thesis
    by (simp add: close_tag_def xml_tag_at_def startsWith_def name_then_gt [OF assms] not_gt_def)
qed

lemma xml_tokens_open:
  "tag_name n \<Longrightarrow> xml_tokens (open_tag n @ rest) = (open_tag n, n) # xml_tokens rest"
  using xml_tag_at_open [of n rest]
  by (subst xml_tokens.simps) (simp add: open_tag_def)

lemma xml_tokens_close:
  "tag_name n \<Longrightarrow> xml_tokens (close_tag n @ rest) = (close_tag n, n) # xml_tokens rest"
  using xml_tag_at_close [of n rest]
  by (subst xml_tokens.simps) (simp add: close_tag_def)

lemma xml_exec_plain: "CHR ''<'' \<notin> set body \<Longrightarrow> xml_exec (body @ rest) = xml_exec rest"
  by (induction body) (auto simp: xml_tag_at_def)

lemma xml_tokens_plain: "CHR ''<'' \<notin> set body \<Longrightarrow> xml_tokens (body @ rest) = xml_tokens rest"
  by (subst xml_tokens.simps, subst (2) xml_tokens.simps) (simp add: xml_exec_plain)

lemma xml_tokens_opens:
  "\<forall>n\<in>set ns. tag_name n \<Longrightarrow>
   xml_tokens (concat (map open_tag ns) @ rest) = map (\<lambda>n. (open_tag n, n)) ns @ xml_tokens rest"
  by (induction ns) (simp_all add: xml_tokens_open)

lemma xml_tokens_closes:
  "\<forall>n\<in>set ns. tag_name n \<Longrightarrow>
   xml_tokens (concat (map close_tag ns)) = map (\<lambda>n. (close_tag n, n)) ns"
proof (induction ns)
  case Nil
  have "xml_tokens [] = []" by (subst xml_tokens.simps) simp
  then show ?case by simp
next
  case (Cons n ns)
  then show ?case by (simp add: xml_tokens_close)
qed

lemma xml_tokens_nested:
  assumes "\<forall>n\<in>set ns. tag_name n" and "CHR ''<'' \<notin> set body"
  shows "xml_tokens (nested ns body)
       = map (\<lambda>n. (open_tag n, n)) ns @ map (\<lambda>n. (close_tag n, n)) (rev ns)"
  using assms
  by (simp add: nested_def xml_tokens_opens xml_tokens_plain xml_tokens_closes)

lemma endsWith_two: "endsWith (xs @ [a, b]) [c, d] \<longleftrightarrow> a = c \<and> b = d"
  by (simp add: endsWith_def)

lemma nesting_kind_open:
  assumes "tag_name n"
  shows "nesting_kind (open_tag n, n) = Opening"
proof -
  from assms have ne: "n \<noteq> []" and "is_name_char (last n)"
    by (simp_all add: tag_name_def list_all_iff)
  then have l: "last n \<noteq> CHR ''/''" using name_char_facts by auto
  from ne have "open_tag n = (''<'' @ butlast n) @ [last n, CHR ''>'']"
    by (simp add: open_tag_def)
  then have "\<not> endsWith (open_tag n) ''/>''" using l by (simp only: endsWith_two) simp
  moreover from tag_name_hd [OF assms] have "\<not> startsWith (open_tag n) ''</''"
    using name_char_facts by (auto simp: startsWith_def open_tag_def)
  ultimately show ?thesis by (simp add: nesting_kind_def)
qed

lemma nesting_kind_close:
  assumes "tag_name n"
  shows "nesting_kind (close_tag n, n) = Closing"
proof -
  from assms have ne: "n \<noteq> []" and "is_name_char (last n)"
    by (simp_all add: tag_name_def list_all_iff)
  then have l: "last n \<noteq> CHR ''/''" using name_char_facts by auto
  from ne have "close_tag n = (''</'' @ butlast n) @ [last n, CHR ''>'']"
    by (simp add: close_tag_def)
  then have "\<not> endsWith (close_tag n) ''/>''" using l by (simp only: endsWith_two) simp
  moreover have "startsWith (close_tag n) ''</''"
    by (simp add: startsWith_def close_tag_def)
  ultimately show ?thesis by (simp add: nesting_kind_def)
qed

lemma peak_openings: "peak (replicate a Opening @ ks) = int a + peak ks"
  using peak_nonneg [of ks] by (induction a) (simp_all add: peak_nonneg)

lemma peak_closings: "peak (replicate b Closing) = 0"
  by (induction b) simp_all

lemma map_constant: "\<forall>x\<in>set xs. f x = c \<Longrightarrow> map f xs = replicate (length xs) c"
  by (induction xs) simp_all

lemma max_nesting_nested:
  assumes "\<forall>n\<in>set ns. tag_name n" and "CHR ''<'' \<notin> set body"
  shows "max_nesting (nested ns body) = int (length ns)"
proof -
  from assms(1)
  have "map (\<lambda>n. nesting_kind (open_tag n, n)) ns = replicate (length ns) Opening"
    by (intro map_constant) (simp add: nesting_kind_open)
  moreover from assms(1)
  have "map (\<lambda>n. nesting_kind (close_tag n, n)) (rev ns) = replicate (length (rev ns)) Closing"
    by (intro map_constant) (simp add: nesting_kind_close)
  ultimately show ?thesis
    using assms
    by (simp add: max_nesting_peak xml_tokens_nested peak_openings peak_closings comp_def)
qed

lemma six_levels_nested:
  "six_levels = nested [''speak'', ''p'', ''s'', ''prosody'', ''emphasis'', ''lang''] ''x''"
  by (simp add: six_levels_def nested_def open_tag_def close_tag_def)

lemma validate_six_levels:
  "validate six_levels =
     Some \<lparr>valid = True, errors = [],
           warnings = [deep_nesting_warning, empty_tags_warning],
           info = \<lparr>characterCount = 1, tagCount = 12\<rparr>\<rparr>"
  by code_simp

lemma validate_five_levels:
  "validate five_levels =
     Some \<lparr>valid = True, errors = [],
           warnings = [empty_tags_warning],
           info = \<lparr>characterCount = 1, tagCount = 10\<rparr>\<rparr>"
  by code_simp

lemma nesting_six_levels: "getMaxNesting six_levels = Some 6"
  by code_simp

lemma nesting_five_levels: "getMaxNesting five_levels = Some 5"
  by code_simp

text \<open>
  C9: \<open>_getMaxNesting\<close> returns the greatest depth reached while the tokens are read
  (no depth after a prefix of the tokens is greater, and the depth after one prefix is
  equal), and the report of \<open>validate\<close> has the warning of the deep nesting iff this
  number exceeds 5. For a document that nests tags of any names around a body without
  markup the number is the number of the levels, so the warning is there iff there are
  6 levels or more. The document with six levels of supported tags has the warning, the
  one with five has not.
\<close>

theorem deep_nesting_warned:
  "(\<exists>r m. validate ssml = Some r \<and> getMaxNesting ssml = Some m
      \<and> (deep_nesting_warning \<in> set (warnings r) \<longleftrightarrow> m > 5)
      \<and> (\<forall>n\<le>length (xml_tokens ssml).
            depth_after (map nesting_kind (take n (xml_tokens ssml))) \<le> m)
      \<and> (\<exists>n\<le>length (xml_tokens ssml).
            depth_after (map nesting_kind (take n (xml_tokens ssml))) = m))
   \<and> ((\<forall>name\<in>set ns. tag_name name) \<longrightarrow> CHR ''<'' \<notin> set body \<longrightarrow>
        (\<exists>r. validate (nested ns body) = Some r
           \<and> getMaxNesting (nested ns body) = Some (int (length ns))
           \<and> (deep_nesting_warning \<in> set (warnings r) \<longleftrightarrow> 6 \<le> length ns)))
   \<and> getMaxNesting six_levels = Some 6
   \<and> (\<exists>r. validate six_levels = Some r \<and> deep_nesting_warning \<in> set (warnings r))
   \<and> getMaxNesting five_levels = Some 5
   \<and> (\<exists>r. validate five_levels = Some r \<and> deep_nesting_warning \<notin> set (warnings r))"
proof (intro conjI impI)
  let ?ks = "map nesting_kind (xml_tokens ssml)"
  have upper: "\<forall>n\<le>length (xml_tokens ssml).
      depth_after (map nesting_kind (take n (xml_tokens ssml))) \<le> max_nesting ssml"
    using peak_upper [of _ ?ks] by (simp add: max_nesting_peak take_map)
  have attained: "\<exists>n\<le>length (xml_tokens ssml).
      depth_after (map nesting_kind (take n (xml_tokens ssml))) = max_nesting ssml"
    using peak_attained [of ?ks] by (simp add: max_nesting_peak take_map)
  from upper attained
  show "\<exists>r m. validate ssml = Some r \<and> getMaxNesting ssml = Some m
      \<and> (deep_nesting_warning \<in> set (warnings r) \<longleftrightarrow> m > 5)
      \<and> (\<forall>n\<le>length (xml_tokens ssml).
            depth_after (map nesting_kind (take n (xml_tokens ssml))) \<le> m)
      \<and> (\<exists>n\<le>length (xml_tokens ssml).
            depth_after (map nesting_kind (take n (xml_tokens ssml))) = m)"
    by (simp add: validate_eq getMaxNesting_eq deep_warning_all)
  show "getMaxNesting six_levels = Some 6" by (rule nesting_six_levels)
  show "getMaxNesting five_levels = Some 5" by (rule nesting_five_levels)
  show "\<exists>r. validate six_levels = Some r \<and> deep_nesting_warning \<in> set (warnings r)"
    by (simp add: validate_six_levels)
  show "\<exists>r. validate five_levels = Some r \<and> deep_nesting_warning \<notin> set (warnings r)"
    by (simp add: validate_five_levels deep_nesting_warning_def empty_tags_warning_def)
  assume "\<forall>name\<in>set ns. tag_name name" and "CHR ''<'' \<notin> set body"
  then have "max_nesting (nested ns body) = int (length ns)" by (rule max_nesting_nested)
  then show "\<exists>r. validate (nested ns body) = Some r
      \<and> getMaxNesting (nested ns body) = Some (int (length ns))
      \<and> (deep_nesting_warning \<in> set (warnings r) \<longleftrightarrow> 6 \<le> length ns)"
    by (auto simp: validate_eq getMaxNesting_eq deep_warning_all)
qed

theorem deep_nesting_warned_witness:
  "list_all tag_name [''speak'', ''p'', ''s'', ''prosody'', ''emphasis'', ''lang'']
   \<and> CHR ''<'' \<notin> set ''x''
   \<and> (\<exists>r. validate six_levels = Some r
          \<and> getMaxNesting six_levels = Some 6
          \<and> deep_nesting_warning \<in> set (warnings r))"
proof -
  have names: "\<forall>name\<in>set [''speak'', ''p'', ''s'', ''prosody'', ''emphasis'', ''lang''].
      tag_name name"
    by (simp add: tag_name_def is_name_char_def is_alpha_def code_unit_def)
  have body: "CHR ''<'' \<notin> set ''x''" by simp
  from deep_nesting_warned [of _ "[''speak'', ''p'', ''s'', ''prosody'', ''emphasis'', ''lang'']"
      "''x''", THEN conjunct2, THEN conjunct1] names body
  have "\<exists>r. validate six_levels = Some r
          \<and> getMaxNesting six_levels = Some 6
          \<and> deep_nesting_warning \<in> set (warnings r)"
    by (simp add: six_levels_nested [symmetric])
  with names body show ?thesis by (simp add: list_all_iff)
qed

end
